theory Spec2Isabelle
  imports Main "HOL-Library.Word" "HOL-Library.Signed_Division"
begin

unbundle bit_operations_syntax

section \<open>Fixed-point kernel (combo.c, lines 45-54)\<close>

text \<open>
  \<^verbatim>\<open>typedef signed int fix15\<close>: a 32-bit two's complement integer holding a value scaled
  by \<open>2 ^ 15\<close>. The word is read as signed with \<open>sint\<close>.
\<close>

type_synonym fix15 = "32 word"

text \<open>
  \<^verbatim>\<open>#define multfix15(a,b) ((fix15)((((signed long long)(a))*((signed long long)(b)))>>15))\<close>
  Both operands are sign-extended to 64 bits, multiplied there, shifted right
  arithmetically by 15 and cut down to the low 32 bits by the cast.
\<close>

definition multfix15 :: "fix15 \<Rightarrow> fix15 \<Rightarrow> fix15" where
  "multfix15 a b = ucast (signed_drop_bit 15 ((scast a :: 64 word) * (scast b :: 64 word)))"

text \<open>\<^verbatim>\<open>#define int2fix15(a) ((fix15)(a << 15))\<close> and \<^verbatim>\<open>#define fix2int15(a) ((int)(a >> 15))\<close>\<close>

definition int2fix15 :: "32 word \<Rightarrow> fix15" where
  "int2fix15 a = push_bit 15 a"

definition fix2int15 :: "fix15 \<Rightarrow> 32 word" where
  "fix2int15 a = signed_drop_bit 15 a"

text \<open>
  \<^verbatim>\<open>#define absfix15(a) abs(a)\<close>; the FFT thread calls \<^verbatim>\<open>abs\<close> directly. On the most
  negative value the negation wraps and returns the argument unchanged.
\<close>

definition abs_int :: "32 word \<Rightarrow> 32 word" where
  "abs_int a = (if a <s 0 then - a else a)"

text \<open>
  Outcomes of an operation that does not deliver a value. \<open>DivideByZero\<close> is the
  reported condition the specification names; \<open>Undefined_Behaviour\<close> marks an operation
  that C leaves undefined and that the source executes without any guard.
\<close>

datatype fault = DivideByZero | Undefined_Behaviour

text \<open>
  \<^verbatim>\<open>#define divfix(a,b) (fix15)( (((signed long long)(a)) << 15) / (b))\<close>
  The dividend is widened to 64 bits and scaled by \<open>2 ^ 15\<close> (at most \<open>2 ^ 46\<close> in
  magnitude, so the 64-bit intermediate is exact), divided by the divisor with C's
  division (truncating towards zero, \<open>sdiv\<close>) and cut down to 32 bits. The macro has no
  test of the divisor: with \<open>b = 0\<close> the division itself is executed, which C leaves
  undefined.
\<close>

definition divfix :: "fix15 \<Rightarrow> fix15 \<Rightarrow> fault + fix15" where
  "divfix a b =
     (if b = 0 then Inl Undefined_Behaviour
      else Inr (word_of_int ((sint a * 2 ^ 15) sdiv sint b)))"

section \<open>DDS oscillators and envelope state machines (combo.c, lines 56-238)\<close>

text \<open>
  Timing parameters of the beeps, in timer interrupts (lines 88-93). The counters they are
  compared with are \<^verbatim>\<open>unsigned int\<close>.
\<close>

definition ATTACK_TIME :: "32 word" where
  "ATTACK_TIME = 3000"

definition DECAY_TIME :: "32 word" where
  "DECAY_TIME = 3000"

definition SUSTAIN_TIME :: "32 word" where
  "SUSTAIN_TIME = 10000 - (ATTACK_TIME + DECAY_TIME)"

definition BEEP_DURATION :: "32 word" where
  "BEEP_DURATION = ATTACK_TIME + SUSTAIN_TIME + DECAY_TIME"

definition BEEP_REPEAT_INTERVAL :: "32 word" where
  "BEEP_REPEAT_INTERVAL = 40000"

definition CHIRP_CYCLE_TIME :: "32 word" where
  "CHIRP_CYCLE_TIME = BEEP_DURATION + BEEP_REPEAT_INTERVAL"

text \<open>
  Globals that are initialised once and never written. \<^verbatim>\<open>phase_incr_main_0\<close> and
  \<^verbatim>\<open>phase_incr_main_1\<close> are \<^verbatim>\<open>(2300.0*two32)/Fs_DDS\<close> \<open>= 246960619.52\<close> converted to
  \<^verbatim>\<open>unsigned int\<close>; \<^verbatim>\<open>scale_out\<close> is \<^verbatim>\<open>float2fix15(0.5)\<close> \<open>= 0.5 * 32768\<close>;
  \<^verbatim>\<open>max_amplitude\<close> is \<^verbatim>\<open>int2fix15(1)\<close>.
\<close>

definition phase_incr_main_0 :: "32 word" where
  "phase_incr_main_0 = 246960619"

definition phase_incr_main_1 :: "32 word" where
  "phase_incr_main_1 = 246960619"

definition scale_out :: fix15 where
  "scale_out = 16384"

definition max_amplitude :: fix15 where
  "max_amplitude = int2fix15 1"

text \<open>DAC control bits (lines 109-111): channel A and channel B, gain 1x, active.\<close>

definition DAC_config_chan_A :: "32 word" where
  "DAC_config_chan_A = 0x3000"

definition DAC_config_chan_B :: "32 word" where
  "DAC_config_chan_B = 0xB000"

text \<open>
  The globals the two timer callbacks read and write. \<open>sin_table\<close> is the array
  \<^verbatim>\<open>fix15 sin_table[256]\<close>, a value for each 8-bit index; \<open>main\<close> fills it with floating-point
  sines, so its contents are a parameter here. \<open>spi_port\<close> is the sequence of 16-bit
  words handed to \<^verbatim>\<open>spi_write16_blocking\<close> so far, oldest first.
\<close>

record dds =
  phase_accum_main_0 :: "32 word"
  phase_accum_main_1 :: "32 word"
  sin_table :: "8 word \<Rightarrow> fix15"
  DAC_output_0 :: "32 word"
  DAC_output_1 :: "32 word"
  attack_inc :: fix15
  decay_inc :: fix15
  current_amplitude_0 :: fix15
  current_amplitude_1 :: fix15
  STATE_L :: "32 word"
  count_L :: "32 word"
  STATE_R :: "32 word"
  count_R :: "32 word"
  DAC_data_L :: "16 word"
  DAC_data_R :: "16 word"
  corenum_0 :: "32 word"
  corenum_1 :: "32 word"
  spi_port :: "16 word list"

text \<open>
  \<^verbatim>\<open>repeating_timer_callback_core_0\<close> (lines 141-188), statement by statement. The callback
  always returns \<^verbatim>\<open>true\<close>; the model returns the globals it leaves. \<^verbatim>\<open>get_core_num()\<close> is
  0 here: the timer of core 0 runs this callback on core 0.
\<close>

definition repeating_timer_callback_core_0 :: "dds \<Rightarrow> dds" where
  "repeating_timer_callback_core_0 s =
     (let s' =
        (if STATE_L s = 0 then
           let s1 = s\<lparr>phase_accum_main_0 := phase_accum_main_0 s + phase_incr_main_0\<rparr>;
               s2 = s1\<lparr>DAC_output_0 :=
                      fix2int15 (multfix15 (multfix15 (current_amplitude_0 s1) scale_out)
                        (sin_table s1 (ucast (drop_bit 24 (phase_accum_main_0 s1))))) + 2048\<rparr>;
               s3 = (if count_L s2 < ATTACK_TIME
                     then s2\<lparr>current_amplitude_0 := current_amplitude_0 s2 + attack_inc s2\<rparr>
                     else if count_L s2 > BEEP_DURATION - DECAY_TIME
                     then s2\<lparr>current_amplitude_0 := current_amplitude_0 s2 - decay_inc s2\<rparr>
                     else s2);
               s4 = s3\<lparr>DAC_data_L := ucast (DAC_config_chan_B OR (DAC_output_0 s3 AND 0xffff))\<rparr>;
               s5 = s4\<lparr>spi_port := spi_port s4 @ [DAC_data_L s4]\<rparr>;
               s6 = s5\<lparr>count_L := count_L s5 + 1\<rparr>
           in if count_L s6 = BEEP_DURATION then s6\<lparr>STATE_L := 1, count_L := 0\<rparr> else s6
         else
           let s1 = s\<lparr>count_L := count_L s + 1\<rparr>
           in if count_L s1 = BEEP_REPEAT_INTERVAL
              then s1\<lparr>current_amplitude_0 := 0, STATE_L := 0, count_L := 0\<rparr>
              else s1)
      in s'\<lparr>corenum_0 := 0\<rparr>)"

text \<open>
  \<^verbatim>\<open>repeating_timer_callback_core_1\<close> (lines 191-238): the same code on the globals of the
  other oscillator, writing DAC channel A. \<^verbatim>\<open>get_core_num()\<close> is 1 here.
\<close>

definition repeating_timer_callback_core_1 :: "dds \<Rightarrow> dds" where
  "repeating_timer_callback_core_1 s =
     (let s' =
        (if STATE_R s = 0 then
           let s1 = s\<lparr>phase_accum_main_1 := phase_accum_main_1 s + phase_incr_main_1\<rparr>;
               s2 = s1\<lparr>DAC_output_1 :=
                      fix2int15 (multfix15 (multfix15 (current_amplitude_1 s1) scale_out)
                        (sin_table s1 (ucast (drop_bit 24 (phase_accum_main_1 s1))))) + 2048\<rparr>;
               s3 = (if count_R s2 < ATTACK_TIME
                     then s2\<lparr>current_amplitude_1 := current_amplitude_1 s2 + attack_inc s2\<rparr>
                     else if count_R s2 > BEEP_DURATION - DECAY_TIME
                     then s2\<lparr>current_amplitude_1 := current_amplitude_1 s2 - decay_inc s2\<rparr>
                     else s2);
               s4 = s3\<lparr>DAC_data_R := ucast (DAC_config_chan_A OR (DAC_output_1 s3 AND 0xffff))\<rparr>;
               s5 = s4\<lparr>spi_port := spi_port s4 @ [DAC_data_R s4]\<rparr>;
               s6 = s5\<lparr>count_R := count_R s5 + 1\<rparr>
           in if count_R s6 = BEEP_DURATION then s6\<lparr>STATE_R := 1, count_R := 0\<rparr> else s6
         else
           let s1 = s\<lparr>count_R := count_R s + 1\<rparr>
           in if count_R s1 = BEEP_REPEAT_INTERVAL
              then s1\<lparr>current_amplitude_1 := 0, STATE_R := 0, count_R := 0\<rparr>
              else s1)
      in s'\<lparr>corenum_1 := 1\<rparr>)"

text \<open>
  The globals as the C start-up code leaves them: zero, except for the initialisers written
  in the source (all of which are zero as well for the variables of this record). The sine
  table is the one \<open>main\<close> builds.
\<close>

definition dds_globals :: "(8 word \<Rightarrow> fix15) \<Rightarrow> dds" where
  "dds_globals tbl =
     \<lparr>phase_accum_main_0 = 0, phase_accum_main_1 = 0, sin_table = tbl,
      DAC_output_0 = 0, DAC_output_1 = 0, attack_inc = 0, decay_inc = 0,
      current_amplitude_0 = 0, current_amplitude_1 = 0,
      STATE_L = 0, count_L = 0, STATE_R = 0, count_R = 0,
      DAC_data_L = 0, DAC_data_R = 0, corenum_0 = 0, corenum_1 = 0, spi_port = []\<rparr>"

text \<open>
  The DDS set-up of \<open>main\<close> (lines 585-594): the two envelope increments are computed with
  \<open>divfix\<close> from \<^verbatim>\<open>max_amplitude\<close> and the ramp lengths, and the sine table is filled.
\<close>

definition main_dds_setup :: "(8 word \<Rightarrow> fix15) \<Rightarrow> fault + dds" where
  "main_dds_setup tbl =
     (case divfix max_amplitude (int2fix15 ATTACK_TIME) of
        Inl e \<Rightarrow> Inl e
      | Inr a \<Rightarrow>
          (case divfix max_amplitude (int2fix15 DECAY_TIME) of
             Inl e \<Rightarrow> Inl e
           | Inr d \<Rightarrow> Inr ((dds_globals tbl)\<lparr>attack_inc := a, decay_inc := d\<rparr>)))"

text \<open>
  The states the running system passes through: the state \<open>main\<close> sets up, followed by
  any interleaving of complete runs of the two timer callbacks (each runs on its own core
  and touches only its own oscillator, its envelope and the SPI port).
\<close>

inductive dds_reachable :: "(8 word \<Rightarrow> fix15) \<Rightarrow> dds \<Rightarrow> bool" for tbl where
  start: "main_dds_setup tbl = Inr s \<Longrightarrow> dds_reachable tbl s"
| tick_core_0: "dds_reachable tbl s \<Longrightarrow> dds_reachable tbl (repeating_timer_callback_core_0 s)"
| tick_core_1: "dds_reachable tbl s \<Longrightarrow> dds_reachable tbl (repeating_timer_callback_core_1 s)"

text \<open>\<open>n\<close> consecutive timer interrupts on core 0.\<close>

primrec ticks_core_0 :: "nat \<Rightarrow> dds \<Rightarrow> dds" where
  "ticks_core_0 0 s = s"
| "ticks_core_0 (Suc n) s = repeating_timer_callback_core_0 (ticks_core_0 n s)"

text \<open>\<open>n\<close> consecutive timer interrupts on core 1.\<close>

primrec ticks_core_1 :: "nat \<Rightarrow> dds \<Rightarrow> dds" where
  "ticks_core_1 0 s = s"
| "ticks_core_1 (Suc n) s = repeating_timer_callback_core_1 (ticks_core_1 n s)"

text \<open>A sine table with every entry 0, for concrete runs.\<close>

definition flat_table :: "8 word \<Rightarrow> fix15" where
  "flat_table i = 0"

text \<open>
  The state \<open>main\<close> sets up when the sine table is flat: both increments are
  \<open>divfix(max_amplitude, int2fix15(3000))\<close> \<open>= 2 ^ 30 div 98304000 = 10\<close>.
\<close>

definition dds_start :: dds where
  "dds_start = (dds_globals flat_table)\<lparr>attack_inc := 10, decay_inc := 10\<rparr>"

subsection \<open>Closed form of the envelope\<close>

text \<open>
  The envelope variables of one oscillator: state, tick counter, amplitude; and their values
  \<open>n\<close> ticks after the start of an ACTIVE phase that begins with amplitude 0 (used to
  state and prove the properties of long runs without executing them).
\<close>

definition envelope_0 :: "dds \<Rightarrow> 32 word \<times> 32 word \<times> fix15" where
  "envelope_0 s = (STATE_L s, count_L s, current_amplitude_0 s)"

definition envelope_1 :: "dds \<Rightarrow> 32 word \<times> 32 word \<times> fix15" where
  "envelope_1 s = (STATE_R s, count_R s, current_amplitude_1 s)"

definition amplitude_at :: "nat \<Rightarrow> int" where
  "amplitude_at n =
     (if n \<le> 3000 then 10 * int n
      else if n \<le> 7001 then 30000
      else 30000 - 10 * (int n - 7001))"

definition envelope_at :: "nat \<Rightarrow> 32 word \<times> 32 word \<times> fix15" where
  "envelope_at n =
     (if n < 10000 then (0, of_nat n, word_of_int (amplitude_at n))
      else (1, of_nat (n - 10000), 10))"

text \<open>
  A sine table that is not flat, for concrete runs: a sawtooth from -2048.0 to 2032.0 (entry
  \<open>i\<close> is 16 times the index read as a signed byte), in the range of the table \<open>main\<close>
  builds; and the state \<open>main\<close> sets up with it.
\<close>

definition wave_table :: "8 word \<Rightarrow> fix15" where
  "wave_table i = int2fix15 (scast i * 16)"

definition wave_start :: dds where
  "wave_start = (dds_globals wave_table)\<lparr>attack_inc := 10, decay_inc := 10\<rparr>"

section \<open>Fixed-point FFT: bit reversal and peak search (combo.c, lines 332-557)\<close>

text \<open>
  The size macros (lines 339-345). \<^verbatim>\<open>SHIFT_AMOUNT\<close> is 16 minus the binary logarithm of
  the number of samples. The functions below take the macros they use as arguments, so that
  the same code can be read at another size; the program itself is compiled at 1024.
\<close>

definition NUM_SAMPLES :: nat where
  "NUM_SAMPLES = 1024"

definition NUM_SAMPLES_M_1 :: "16 word" where
  "NUM_SAMPLES_M_1 = 1023"

definition SHIFT_AMOUNT :: nat where
  "SHIFT_AMOUNT = 6"

definition LOG2_NUM_SAMPLES :: nat where
  "LOG2_NUM_SAMPLES = 10"

text \<open>
  Lines 400-406: the four exchange steps on the \<^verbatim>\<open>unsigned short\<close> \<open>m\<close> (odd and even bits,
  pairs, nibbles, bytes). C computes them in \<^verbatim>\<open>int\<close>; every intermediate value is below
  \<open>2 ^ 16\<close>, so 16-bit words give the same results.
\<close>

definition reverse_bits_16 :: "16 word \<Rightarrow> 16 word" where
  "reverse_bits_16 m =
     (let mr1 = (drop_bit 1 m AND 0x5555) OR push_bit 1 (m AND 0x5555);
          mr2 = (drop_bit 2 mr1 AND 0x3333) OR push_bit 2 (mr1 AND 0x3333);
          mr3 = (drop_bit 4 mr2 AND 0x0F0F) OR push_bit 4 (mr2 AND 0x0F0F);
          mr4 = (drop_bit 8 mr3 AND 0x00FF) OR push_bit 8 (mr3 AND 0x00FF)
      in mr4)"

text \<open>Line 408, \<^verbatim>\<open>mr >>= SHIFT_AMOUNT\<close>: the index exchanged with \<open>m\<close>.\<close>

definition bit_reversed :: "nat \<Rightarrow> 16 word \<Rightarrow> 16 word" where
  "bit_reversed shift m = drop_bit shift (reverse_bits_16 m)"

text \<open>
  Lines 410-417, the body of the loop for one \<open>m\<close>: nothing happens when \<open>mr \<le> m\<close>
  (\<^verbatim>\<open>continue\<close>); otherwise the entries at \<open>m\<close> and \<open>mr\<close> are exchanged in both arrays.
\<close>

definition bit_reversal_body ::
  "nat \<Rightarrow> 16 word \<Rightarrow> fix15 list \<times> fix15 list \<Rightarrow> fix15 list \<times> fix15 list" where
  "bit_reversal_body shift m st =
     (case st of (fr, fi) \<Rightarrow>
        let mr = bit_reversed shift m in
        if mr \<le> m then (fr, fi)
        else (fr[unat m := fr ! unat mr, unat mr := fr ! unat m],
              fi[unat m := fi ! unat mr, unat mr := fi ! unat m]))"

text \<open>
  Line 398, \<^verbatim>\<open>for (m=1; m<NUM_SAMPLES_M_1; m++)\<close>, from the current value of the
  \<^verbatim>\<open>unsigned short\<close> counter \<open>m\<close>.
\<close>

function bit_reversal_loop ::
  "16 word \<Rightarrow> nat \<Rightarrow> 16 word \<Rightarrow> fix15 list \<times> fix15 list \<Rightarrow> fix15 list \<times> fix15 list" where
  "bit_reversal_loop nm1 shift m st =
     (if m < nm1 then bit_reversal_loop nm1 shift (m + 1) (bit_reversal_body shift m st)
      else st)"
  by pat_completeness auto
termination
proof (relation "measure (\<lambda>(nm1, shift, m, st). unat nm1 - unat m)")
  show "wf (measure (\<lambda>(nm1, shift, m, st). unat nm1 - unat m))"
    by simp
next
  fix nm1 m :: "16 word" and shift :: nat and st :: "fix15 list \<times> fix15 list"
  assume less: "m < nm1"
  then have lt: "unat m < unat nm1"
    by (simp add: word_less_nat_alt)
  moreover have "unat nm1 < 2 ^ 16"
    using unsigned_less [of nm1, where 'a = nat] by simp
  ultimately have "unat m + unat (1 :: 16 word) < 2 ^ LENGTH(16)"
    by simp
  then have "unat (m + 1) = unat m + unat (1 :: 16 word)"
    by (simp only: unat_add_lem)
  then have "unat (m + 1) = Suc (unat m)"
    by simp
  moreover note lt
  ultimately show "((nm1, shift, m + 1, bit_reversal_body shift m st), (nm1, shift, m, st))
        \<in> measure (\<lambda>(nm1, shift, m, st). unat nm1 - unat m)"
    by simp
qed

declare bit_reversal_loop.simps [simp del]

text \<open>The bit-reversal phase of \<^verbatim>\<open>FFTfix\<close> (lines 398-418) as compiled.\<close>

definition FFTfix_bit_reversal :: "fix15 list \<times> fix15 list \<Rightarrow> fix15 list \<times> fix15 list" where
  "FFTfix_bit_reversal st = bit_reversal_loop NUM_SAMPLES_M_1 SHIFT_AMOUNT 1 st"

subsection \<open>Magnitudes and peak search in \<^verbatim>\<open>protothread_fft\<close> (lines 511-536)\<close>

text \<open>
  \<^verbatim>\<open>#define max(a,b) ((a>b)?a:b)\<close> and \<^verbatim>\<open>#define min(a,b) ((a<b)?a:b)\<close> on \<^verbatim>\<open>fix15\<close>
  operands: signed comparisons.
\<close>

definition max_macro :: "fix15 \<Rightarrow> fix15 \<Rightarrow> fix15" where
  "max_macro a b = (if b <s a then a else b)"

definition min_macro :: "fix15 \<Rightarrow> fix15 \<Rightarrow> fix15" where
  "min_macro a b = (if a <s b then a else b)"

text \<open>\<^verbatim>\<open>fix15 zero_point_4 = float2fix15(0.4)\<close>: \<open>0.4 * 32768 = 13107.2\<close>, cut to an integer.\<close>

definition zero_point_4 :: fix15 where
  "zero_point_4 = 13107"

text \<open>
  The variables of the thread that the magnitude loop uses: the arrays \<^verbatim>\<open>fr\<close> and \<^verbatim>\<open>fi\<close>
  (1024 entries each) and the statics \<^verbatim>\<open>max_fr\<close> and \<^verbatim>\<open>max_fr_dex\<close>.
\<close>

record fft_thread =
  fr :: "fix15 list"
  fi :: "fix15 list"
  max_fr :: fix15
  max_fr_dex :: nat

text \<open>Lines 524-535, the body of the loop at index \<open>i\<close>.\<close>

definition magnitude_body :: "nat \<Rightarrow> fft_thread \<Rightarrow> fft_thread" where
  "magnitude_body i s =
     (let s1 = s\<lparr>fr := (fr s)[i := abs_int (fr s ! i)]\<rparr>;
          s2 = s1\<lparr>fi := (fi s1)[i := abs_int (fi s1 ! i)]\<rparr>;
          s3 = s2\<lparr>fr := (fr s2)[i := max_macro (fr s2 ! i) (fi s2 ! i)
                                    + multfix15 (min_macro (fr s2 ! i) (fi s2 ! i)) zero_point_4]\<rparr>
      in if max_fr s3 <s fr s3 ! i \<and> i > 4
         then s3\<lparr>max_fr := fr s3 ! i, max_fr_dex := i\<rparr>
         else s3)"

text \<open>Line 523, \<^verbatim>\<open>for (int i = 0; i < (NUM_SAMPLES>>1); i++)\<close>, from the current \<open>i\<close>.\<close>

function magnitude_loop :: "nat \<Rightarrow> nat \<Rightarrow> fft_thread \<Rightarrow> fft_thread" where
  "magnitude_loop n i s =
     (if i < n then magnitude_loop n (i + 1) (magnitude_body i s) else s)"
  by pat_completeness auto
termination
  by (relation "measure (\<lambda>(n, i, s). n - i)") auto

declare magnitude_loop.simps [simp del]

text \<open>
  The peak search of one epoch on a transformed spectrum: \<^verbatim>\<open>max_fr\<close> and \<^verbatim>\<open>max_fr_dex\<close> are
  zeroed (lines 512-513, before the transform, which does not touch them), then the loop
  runs over the first half of the bins.
\<close>

definition peak_search :: "fix15 list \<Rightarrow> fix15 list \<Rightarrow> fft_thread" where
  "peak_search re im =
     magnitude_loop (drop_bit 1 NUM_SAMPLES) 0 \<lparr>fr = re, fi = im, max_fr = 0, max_fr_dex = 0\<rparr>"

text \<open>
  The value the loop stores in \<^verbatim>\<open>fr[i]\<close> for the transform output \<open>(re, im)\<close> of a bin
  (lines 525-529): alpha max plus beta min, in wrapping fixed-point arithmetic.
\<close>

definition magnitude :: "fix15 \<Rightarrow> fix15 \<Rightarrow> fix15" where
  "magnitude re im =
     max_macro (abs_int re) (abs_int im)
       + multfix15 (min_macro (abs_int re) (abs_int im)) zero_point_4"

text \<open>
  What the search has established when the bins below \<open>k\<close> have been visited, for the
  transform output \<open>(re, im)\<close> (used to state and prove the result of the loop): the
  visited bins hold their magnitudes, and the running maximum is at the first bin above
  bin 4 that holds the largest magnitude so far, if a positive one has been seen.
\<close>

definition peak_so_far :: "fix15 list \<Rightarrow> fix15 list \<Rightarrow> nat \<Rightarrow> fft_thread \<Rightarrow> bool" where
  "peak_so_far re im k s \<longleftrightarrow>
     length (fr s) = length re \<and> length (fi s) = length im
     \<and> (\<forall>j < length re. fr s ! j = (if j < k then magnitude (re ! j) (im ! j) else re ! j))
     \<and> (\<forall>j < length im. fi s ! j = (if j < k then abs_int (im ! j) else im ! j))
     \<and> (if \<exists>j. 4 < j \<and> j < k \<and> 0 < sint (magnitude (re ! j) (im ! j))
         then 4 < max_fr_dex s \<and> max_fr_dex s < k
              \<and> max_fr s = magnitude (re ! max_fr_dex s) (im ! max_fr_dex s)
              \<and> 0 < sint (max_fr s)
              \<and> (\<forall>j. 4 < j \<and> j < k \<longrightarrow>
                    sint (magnitude (re ! j) (im ! j)) \<le> sint (max_fr s))
              \<and> (\<forall>j. 4 < j \<and> j < max_fr_dex s \<longrightarrow>
                    sint (magnitude (re ! j) (im ! j)) < sint (max_fr s))
         else max_fr_dex s = 0 \<and> max_fr s = 0)"

text \<open>Spectra for concrete runs: all bins zero, and all zero but a real part of 1.0 in bin 4 or
  in bin 7.\<close>

definition flat_bins :: "fix15 list" where
  "flat_bins = replicate 1024 0"

definition tone_in_bin_4 :: "fix15 list" where
  "tone_in_bin_4 = (replicate 1024 0)[4 := 32768]"

definition tone_in_bin_7 :: "fix15 list" where
  "tone_in_bin_7 = (replicate 1024 0)[7 := 32768]"

section \<open>The ping-pong handshake of the two heartbeat threads (combo.c, lines 254-307, 597-598)\<close>

text \<open>
  Modelled from the spec: the header \<^verbatim>\<open>pt_cornell_rp2040_v1.h\<close> with the macros
  \<^verbatim>\<open>PT_SEM_SAFE_INIT\<close>, \<^verbatim>\<open>PT_SEM_SAFE_WAIT\<close>, \<^verbatim>\<open>PT_SEM_SAFE_SIGNAL\<close> and \<^verbatim>\<open>PT_YIELD_usec\<close> is
  not among the sources. A semaphore is a count, signalled when it is positive. A wait lets
  the thread pass only when the semaphore is signalled and takes the signal away
  (\<open>None\<close>: the thread stays at the wait); a signal adds one. Both are indivisible (the
  \<^verbatim>\<open>SAFE\<close> variants run under a spin lock).
\<close>

definition PT_SEM_SAFE_INIT :: "nat \<Rightarrow> nat" where
  "PT_SEM_SAFE_INIT n = n"

definition PT_SEM_SAFE_WAIT :: "nat \<Rightarrow> nat option" where
  "PT_SEM_SAFE_WAIT sem = (if 0 < sem then Some (sem - 1) else None)"

definition PT_SEM_SAFE_SIGNAL :: "nat \<Rightarrow> nat" where
  "PT_SEM_SAFE_SIGNAL sem = sem + 1"

text \<open>
  Where a heartbeat thread stands in the body of its \<^verbatim>\<open>while(1)\<close> loop, statement by
  statement. \<^verbatim>\<open>global_counter++\<close> on the \<^verbatim>\<open>volatile int\<close> is a load followed by a store of
  the loaded value plus one, and the other core runs at the same time, so the two halves
  are separate steps.
\<close>

datatype location = At_wait | At_load | At_store | At_printf | At_reset | At_yield | At_signal

text \<open>
  A line of the console: which thread printed it (0 for \<^verbatim>\<open>Ping: Core 0\<close>, 1 for
  \<^verbatim>\<open>Pong: Core 1\<close>), the counter, the maximum frequency as printed (\<^verbatim>\<open>(int)fr_max\<close>) and the
  FFT count. The ISR core number printed with them is a variable of the DDS part and is
  left out of the line.
\<close>

record line =
  speaker :: nat
  counter :: "32 word"
  max_f :: int
  fft_count :: "32 word"

text \<open>
  The shared variables, the two semaphores, the position of each heartbeat thread, the
  value each has loaded for its increment, and the lines printed by the two threads.
  \<open>fr_max\<close> is kept as the integer that \<^verbatim>\<open>printf\<close> shows.
\<close>

record handshake =
  global_counter :: "32 word"
  FFT_count :: "32 word"
  fr_max :: int
  core_0_go :: nat
  core_1_go :: nat
  pt_core_0 :: location
  pt_core_1 :: location
  loaded_0 :: "32 word"
  loaded_1 :: "32 word"
  console :: "line list"

text \<open>
  One step of \<^verbatim>\<open>protothread_core_0\<close> (lines 286-304) from where it stands; \<open>None\<close> when it
  is held at the wait.
\<close>

definition protothread_core_0 :: "handshake \<Rightarrow> handshake option" where
  "protothread_core_0 s =
     (case pt_core_0 s of
        At_wait \<Rightarrow>
          (case PT_SEM_SAFE_WAIT (core_0_go s) of
             None \<Rightarrow> None
           | Some c \<Rightarrow> Some (s\<lparr>core_0_go := c, pt_core_0 := At_load\<rparr>))
      | At_load \<Rightarrow> Some (s\<lparr>loaded_0 := global_counter s, pt_core_0 := At_store\<rparr>)
      | At_store \<Rightarrow> Some (s\<lparr>global_counter := loaded_0 s + 1, pt_core_0 := At_printf\<rparr>)
      | At_printf \<Rightarrow>
          Some (s\<lparr>console := console s @
                    [\<lparr>speaker = 0, counter = global_counter s, max_f = fr_max s,
                      fft_count = FFT_count s\<rparr>],
                  pt_core_0 := At_reset\<rparr>)
      | At_reset \<Rightarrow> Some (s\<lparr>FFT_count := 0, pt_core_0 := At_yield\<rparr>)
      | At_yield \<Rightarrow> Some (s\<lparr>pt_core_0 := At_signal\<rparr>)
      | At_signal \<Rightarrow>
          Some (s\<lparr>core_1_go := PT_SEM_SAFE_SIGNAL (core_1_go s), pt_core_0 := At_wait\<rparr>))"

text \<open>One step of \<^verbatim>\<open>protothread_core_1\<close> (lines 258-276).\<close>

definition protothread_core_1 :: "handshake \<Rightarrow> handshake option" where
  "protothread_core_1 s =
     (case pt_core_1 s of
        At_wait \<Rightarrow>
          (case PT_SEM_SAFE_WAIT (core_1_go s) of
             None \<Rightarrow> None
           | Some c \<Rightarrow> Some (s\<lparr>core_1_go := c, pt_core_1 := At_load\<rparr>))
      | At_load \<Rightarrow> Some (s\<lparr>loaded_1 := global_counter s, pt_core_1 := At_store\<rparr>)
      | At_store \<Rightarrow> Some (s\<lparr>global_counter := loaded_1 s + 1, pt_core_1 := At_printf\<rparr>)
      | At_printf \<Rightarrow>
          Some (s\<lparr>console := console s @
                    [\<lparr>speaker = 1, counter = global_counter s, max_f = fr_max s,
                      fft_count = FFT_count s\<rparr>],
                  pt_core_1 := At_reset\<rparr>)
      | At_reset \<Rightarrow> Some (s\<lparr>FFT_count := 0, pt_core_1 := At_yield\<rparr>)
      | At_yield \<Rightarrow> Some (s\<lparr>pt_core_1 := At_signal\<rparr>)
      | At_signal \<Rightarrow>
          Some (s\<lparr>core_0_go := PT_SEM_SAFE_SIGNAL (core_0_go s), pt_core_1 := At_wait\<rparr>))"

text \<open>
  What a scheduler can let happen next: a step of one of the two heartbeat threads, or one
  of the two writes of \<^verbatim>\<open>protothread_fft\<close> to the shared variables (\<^verbatim>\<open>FFT_count++\<close>, line 520,
  and \<^verbatim>\<open>fr_max = max_frequency\<close>, line 539, with the value written). The FFT thread shares
  core 0 with \<^verbatim>\<open>protothread_core_0\<close> under a cooperative scheduler, so it runs only while
  that thread is at its wait or in its timed yield.
\<close>

datatype event = Heartbeat_0 | Heartbeat_1 | Fft_counted | Fft_peak int

definition fire :: "event \<Rightarrow> handshake \<Rightarrow> handshake option" where
  "fire e s =
     (case e of
        Heartbeat_0 \<Rightarrow> protothread_core_0 s
      | Heartbeat_1 \<Rightarrow> protothread_core_1 s
      | Fft_counted \<Rightarrow>
          (if pt_core_0 s = At_wait \<or> pt_core_0 s = At_yield
           then Some (s\<lparr>FFT_count := FFT_count s + 1\<rparr>) else None)
      | Fft_peak v \<Rightarrow>
          (if pt_core_0 s = At_wait \<or> pt_core_0 s = At_yield
           then Some (s\<lparr>fr_max := v\<rparr>) else None))"

text \<open>A schedule is run from a state event by event; \<open>None\<close> when an event cannot happen.\<close>

primrec run :: "event list \<Rightarrow> handshake \<Rightarrow> handshake option" where
  "run [] s = Some s"
| "run (e # es) s = (case fire e s of None \<Rightarrow> None | Some s' \<Rightarrow> run es s')"

text \<open>
  The heartbeat statements a schedule executes, in order, each with the core that executed
  it (an observation of the run, for stating what the protocol guarantees).
\<close>

definition statement :: "event \<Rightarrow> handshake \<Rightarrow> (nat \<times> location) list" where
  "statement e s =
     (case e of
        Heartbeat_0 \<Rightarrow> [(0, pt_core_0 s)]
      | Heartbeat_1 \<Rightarrow> [(1, pt_core_1 s)]
      | Fft_counted \<Rightarrow> []
      | Fft_peak v \<Rightarrow> [])"

primrec executed :: "event list \<Rightarrow> handshake \<Rightarrow> (nat \<times> location) list" where
  "executed [] s = []"
| "executed (e # es) s =
     (case fire e s of None \<Rightarrow> [] | Some s' \<Rightarrow> statement e s @ executed es s')"

text \<open>
  The state \<open>main\<close> leaves (lines 597-598 and the initialisers): the semaphore of core 0
  signalled, that of core 1 not, the counters zero, both threads at the top of their loops.
\<close>

definition handshake_start :: handshake where
  "handshake_start =
     \<lparr>global_counter = 0, FFT_count = 0, fr_max = 0,
      core_0_go = PT_SEM_SAFE_INIT 1, core_1_go = PT_SEM_SAFE_INIT 0,
      pt_core_0 = At_wait, pt_core_1 = At_wait, loaded_0 = 0, loaded_1 = 0, console = []\<rparr>"

text \<open>
  The statements of one heartbeat body in program order, and the run of whole bodies:
  \<open>bodies_before b l\<close> is \<open>b\<close> complete bodies, by core 0, core 1, core 0, ... in turn,
  followed by the statements before location \<open>l\<close> of one more body by the next core.
\<close>

definition body_order :: "location list" where
  "body_order = [At_wait, At_load, At_store, At_printf, At_reset, At_yield, At_signal]"

definition bodies_before :: "nat \<Rightarrow> location \<Rightarrow> (nat \<times> location) list" where
  "bodies_before b l =
     concat (map (\<lambda>i. map (Pair (i mod 2)) body_order) [0..<b])
       @ map (Pair (b mod 2)) (takeWhile (\<lambda>x. x \<noteq> l) body_order)"

text \<open>How many of the executed statements are increments of the counter, and how many are signals.\<close>

definition increments :: "(nat \<times> location) list \<Rightarrow> nat" where
  "increments xs = length (filter (\<lambda>x. snd x = At_store) xs)"

definition signals :: "(nat \<times> location) list \<Rightarrow> nat" where
  "signals xs = length (filter (\<lambda>x. snd x = At_signal) xs)"

text \<open>
  Whether a thread standing at a location has already stored its increment, or printed
  its line, in the current body; and the location after a statement.
\<close>

fun stored :: "location \<Rightarrow> nat" where
  "stored At_wait = 0"
| "stored At_load = 0"
| "stored At_store = 0"
| "stored l = 1"

fun printed :: "location \<Rightarrow> nat" where
  "printed At_reset = 1"
| "printed At_yield = 1"
| "printed At_signal = 1"
| "printed l = 0"

fun following :: "location \<Rightarrow> location" where
  "following At_wait = At_load"
| "following At_load = At_store"
| "following At_store = At_printf"
| "following At_printf = At_reset"
| "following At_reset = At_yield"
| "following At_yield = At_signal"
| "following At_signal = At_wait"

text \<open>
  The states of the protocol: after \<open>b\<close> complete bodies the thread whose turn it is (core 0
  for even \<open>b\<close>) stands at \<open>l\<close>, holding the only signal unless it still waits for it; the
  other thread waits; the counter and the console have one entry per body so far.
\<close>

definition position :: "nat \<Rightarrow> location \<Rightarrow> handshake \<Rightarrow> bool" where
  "position b l s \<longleftrightarrow>
     (if even b
      then pt_core_0 s = l \<and> pt_core_1 s = At_wait
           \<and> core_0_go s = (if l = At_wait then 1 else 0) \<and> core_1_go s = 0
           \<and> (l = At_store \<longrightarrow> loaded_0 s = of_nat b)
      else pt_core_1 s = l \<and> pt_core_0 s = At_wait
           \<and> core_1_go s = (if l = At_wait then 1 else 0) \<and> core_0_go s = 0
           \<and> (l = At_store \<longrightarrow> loaded_1 s = of_nat b))
     \<and> global_counter s = of_nat (b + stored l)
     \<and> length (console s) = b + printed l
     \<and> (\<forall>k < length (console s).
           speaker (console s ! k) = k mod 2 \<and> counter (console s ! k) = of_nat (Suc k))"

text \<open>
  A schedule for concrete runs: the FFT thread counts two transforms and publishes the
  frequency 2299, core 0 runs a whole body, the FFT thread counts another transform, and
  core 1 gets as far as having stored its increment; and the state this leads to.
\<close>

definition sample_schedule :: "event list" where
  "sample_schedule =
     [Fft_counted, Fft_counted, Fft_peak 2299,
      Heartbeat_0, Heartbeat_0, Heartbeat_0, Heartbeat_0, Heartbeat_0, Heartbeat_0, Heartbeat_0,
      Fft_counted, Heartbeat_1, Heartbeat_1, Heartbeat_1]"

definition sample_outcome :: handshake where
  "sample_outcome =
     \<lparr>global_counter = 2, FFT_count = 1, fr_max = 2299, core_0_go = 0, core_1_go = 0,
      pt_core_0 = At_wait, pt_core_1 = At_printf, loaded_0 = 0, loaded_1 = 1,
      console = [\<lparr>speaker = 0, counter = 1, max_f = 2299, fft_count = 2\<rparr>]\<rparr>"

section \<open>Properties of the fixed-point kernel\<close>

lemma sint_scast_64: "sint (scast (a :: 32 word) :: 64 word) = sint a"
  by (simp add: sint_up_scast is_up)

lemma prod_bounds:
  fixes x y :: int
  assumes "- (2 ^ 31) \<le> x" "x < 2 ^ 31" "- (2 ^ 31) \<le> y" "y < 2 ^ 31"
  shows "- (2 ^ 63) \<le> x * y \<and> x * y < 2 ^ 63"
proof -
  have "\<bar>x\<bar> \<le> 2 ^ 31" "\<bar>y\<bar> \<le> 2 ^ 31" using assms by auto
  then have "\<bar>x\<bar> * \<bar>y\<bar> \<le> 2 ^ 31 * 2 ^ 31" by (intro mult_mono) auto
  then have "\<bar>x * y\<bar> \<le> 2 ^ 62" by (simp add: abs_mult)
  then show ?thesis by auto
qed

lemma sint_prod_64:
  "sint ((scast (a :: 32 word) :: 64 word) * scast (b :: 32 word)) = sint a * sint b"
proof -
  have a: "- (2 ^ 31) \<le> sint a" "sint a < 2 ^ 31"
    using sint_ge [of a] sint_lt [of a] by simp_all
  have b: "- (2 ^ 31) \<le> sint b" "sint b < 2 ^ 31"
    using sint_ge [of b] sint_lt [of b] by simp_all
  from prod_bounds [OF a b] show ?thesis
    by (simp add: sint_word_mult sint_scast_64 signed_take_bit_int_eq_self)
qed

lemma sint_ucast_down: "sint (ucast (w :: 64 word) :: 32 word) = signed_take_bit 31 (sint w)"
proof -
  have "sint (ucast w :: 32 word) = signed_take_bit 31 (uint w)"
    by (simp add: sint_uint unsigned_ucast_eq signed_take_bit_take_bit)
  moreover have "signed_take_bit 31 (sint w) = signed_take_bit 31 (uint w)"
    by (simp add: sint_uint signed_take_bit_signed_take_bit)
  ultimately show ?thesis by simp
qed

lemma sint_multfix15:
  "sint (multfix15 a b) = signed_take_bit 31 ((sint a * sint b) div 2 ^ 15)"
  by (simp add: multfix15_def sint_ucast_down sint_signed_drop_bit_eq sint_prod_64
      drop_bit_eq_div)

text \<open>
  Claim C1. For all 32-bit fixed-point values \<open>a\<close> and \<open>b\<close>, \<open>multfix15 a b\<close> is the exact
  integer product of the two signed values, shifted right by 15 bits (floor division by
  \<open>2 ^ 15\<close>), reduced modulo \<open>2 ^ 32\<close> and read back as a signed 32-bit integer
  (\<open>signed_take_bit 31\<close>); the result wraps on overflow and does not saturate: the product
  of \<open>2 ^ 30\<close> with itself gives 0, not the largest representable value.
\<close>

theorem multfix15_exact_wrapping:
  "multfix15 a b = word_of_int ((sint a * sint b) div 2 ^ 15)
   \<and> sint (multfix15 a b) = signed_take_bit 31 ((sint a * sint b) div 2 ^ 15)
   \<and> multfix15 0x40000000 0x40000000 = 0"
proof -
  have s: "sint (multfix15 a b) = signed_take_bit 31 ((sint a * sint b) div 2 ^ 15)"
    by (rule sint_multfix15)
  have "sint (multfix15 a b) = sint (word_of_int ((sint a * sint b) div 2 ^ 15) :: 32 word)"
    by (simp add: s sint_sbintrunc')
  then have w: "multfix15 a b = word_of_int ((sint a * sint b) div 2 ^ 15)"
    by (simp only: signed_word_eqI)
  have "sint (multfix15 0x40000000 0x40000000) = 0"
    by (simp add: sint_multfix15)
  then have "multfix15 0x40000000 0x40000000 = 0"
    by (metis signed_word_eqI sint_0)
  with s w show ?thesis by simp
qed

text \<open>
  Claim C2 fails on the source: with divisor 0 the macro reports nothing. At the dividend 1.0
  (raw 32768) the outcome is not a reported \<open>DivideByZero\<close>.
\<close>

theorem divfix_zero_not_reported:
  "divfix 32768 0 \<noteq> Inl DivideByZero"
  by (simp add: divfix_def)

text \<open>
  Claim C2, amended. For every fixed-point value \<open>a\<close>, \<open>divfix a 0\<close> executes the C
  division with a zero divisor unguarded: the outcome is undefined behaviour (a trap or an
  arbitrary value), and no \<open>DivideByZero\<close> condition is reported.
\<close>

theorem divfix_zero_undefined:
  "divfix a 0 = Inl Undefined_Behaviour"
  by (simp add: divfix_def)

section \<open>Properties of the DDS callbacks and the envelope\<close>

subsection \<open>Constants and counter arithmetic\<close>

lemma macro_values:
  "ATTACK_TIME = 3000" "DECAY_TIME = 3000" "BEEP_DURATION = 10000"
  "BEEP_DURATION - DECAY_TIME = 7000" "BEEP_REPEAT_INTERVAL = 40000"
  by (simp_all add: ATTACK_TIME_def DECAY_TIME_def SUSTAIN_TIME_def BEEP_DURATION_def
      BEEP_REPEAT_INTERVAL_def)

lemma envelope_increments:
  "divfix max_amplitude (int2fix15 ATTACK_TIME) = Inr 10"
  "divfix max_amplitude (int2fix15 DECAY_TIME) = Inr 10"
  by (simp_all add: divfix_def max_amplitude_def int2fix15_def ATTACK_TIME_def DECAY_TIME_def
      signed_divide_int_def)

lemma count_compare:
  assumes "n < 50000"
  shows "((of_nat n :: 32 word) < 3000) = (n < 3000)"
    and "((7000 :: 32 word) < of_nat n) = (7000 < n)"
    and "((of_nat n + 1 :: 32 word) = 10000) = (n = 9999)"
    and "((of_nat n + 1 :: 32 word) = 40000) = (n = 39999)"
    and "((of_nat n :: 32 word) = 9999) = (n = 9999)"
    and "((of_nat n :: 32 word) = 39999) = (n = 39999)"
proof -
  have u: "unat (of_nat n :: 32 word) = n"
    using assms by (simp add: unat_of_nat)
  have "of_nat n + 1 = (of_nat (Suc n) :: 32 word)" by simp
  then have u1: "unat (of_nat n + 1 :: 32 word) = Suc n"
    using assms by (simp only: unat_of_nat) simp
  show "((of_nat n :: 32 word) < 3000) = (n < 3000)"
    by (simp add: word_less_nat_alt u)
  show "((7000 :: 32 word) < of_nat n) = (7000 < n)"
    by (simp add: word_less_nat_alt u)
  show "((of_nat n + 1 :: 32 word) = 10000) = (n = 9999)"
    by (simp add: word_unat_eq_iff u1)
  show "((of_nat n + 1 :: 32 word) = 40000) = (n = 39999)"
    by (simp add: word_unat_eq_iff u1)
  show "((of_nat n :: 32 word) = 9999) = (n = 9999)"
    by (simp add: word_unat_eq_iff u)
  show "((of_nat n :: 32 word) = 39999) = (n = 39999)"
    by (simp add: word_unat_eq_iff u)
qed

lemma amplitude_at_Suc:
  "n < 3000 \<Longrightarrow> amplitude_at (Suc n) = amplitude_at n + 10"
  "3000 \<le> n \<Longrightarrow> n \<le> 7000 \<Longrightarrow> amplitude_at (Suc n) = amplitude_at n"
  "7000 < n \<Longrightarrow> amplitude_at (Suc n) = amplitude_at n - 10"
  by (auto simp add: amplitude_at_def)

lemma amplitude_at_range: "n \<le> 10000 \<Longrightarrow> 0 \<le> amplitude_at n \<and> amplitude_at n \<le> 30000"
  by (auto simp add: amplitude_at_def)

lemma amplitude_at_even: "even (amplitude_at n)"
  by (simp add: amplitude_at_def)

lemma sint_small: "0 \<le> x \<Longrightarrow> x \<le> 30000 \<Longrightarrow> sint (word_of_int x :: 32 word) = x"
  by (simp add: sint_sbintrunc' signed_take_bit_int_eq_self)

subsection \<open>One tick of the envelope\<close>

lemma callback_core_0_frame:
  "attack_inc (repeating_timer_callback_core_0 s) = attack_inc s"
  "decay_inc (repeating_timer_callback_core_0 s) = decay_inc s"
  "sin_table (repeating_timer_callback_core_0 s) = sin_table s"
  by (simp_all add: repeating_timer_callback_core_0_def Let_def)

lemma callback_core_1_frame:
  "attack_inc (repeating_timer_callback_core_1 s) = attack_inc s"
  "decay_inc (repeating_timer_callback_core_1 s) = decay_inc s"
  "sin_table (repeating_timer_callback_core_1 s) = sin_table s"
  "STATE_L (repeating_timer_callback_core_1 s) = STATE_L s"
  "count_L (repeating_timer_callback_core_1 s) = count_L s"
  "current_amplitude_0 (repeating_timer_callback_core_1 s) = current_amplitude_0 s"
  by (simp_all add: repeating_timer_callback_core_1_def Let_def)

lemma active_tick:
  assumes "STATE_L s = 0" "count_L s = of_nat n" "n < 10000"
    and "current_amplitude_0 s = word_of_int (amplitude_at n)"
    and "attack_inc s = 10" "decay_inc s = 10"
  shows "STATE_L (repeating_timer_callback_core_0 s) = (if n = 9999 then 1 else 0)"
    and "count_L (repeating_timer_callback_core_0 s) = (if n = 9999 then 0 else of_nat (Suc n))"
    and "current_amplitude_0 (repeating_timer_callback_core_0 s) = word_of_int (amplitude_at (Suc n))"
proof -
  have n: "n < 50000" using assms(3) by simp
  show "STATE_L (repeating_timer_callback_core_0 s) = (if n = 9999 then 1 else 0)"
    using assms by (simp add: repeating_timer_callback_core_0_def Let_def macro_values
        count_compare [OF n])
  show "count_L (repeating_timer_callback_core_0 s) = (if n = 9999 then 0 else of_nat (Suc n))"
    using assms by (simp add: repeating_timer_callback_core_0_def Let_def macro_values
        count_compare [OF n])
  consider "n < 3000" | "3000 \<le> n" "n \<le> 7000" | "7000 < n" by linarith
  then show "current_amplitude_0 (repeating_timer_callback_core_0 s) = word_of_int (amplitude_at (Suc n))"
  proof cases
    case 1
    then show ?thesis
      using assms by (simp add: repeating_timer_callback_core_0_def Let_def macro_values
          count_compare [OF n] amplitude_at_Suc)
  next
    case 2
    then show ?thesis
      using assms by (simp add: repeating_timer_callback_core_0_def Let_def macro_values
          count_compare [OF n] amplitude_at_Suc)
  next
    case 3
    then show ?thesis
      using assms by (simp add: repeating_timer_callback_core_0_def Let_def macro_values
          count_compare [OF n] amplitude_at_Suc)
  qed
qed

lemma silent_tick:
  assumes "STATE_L s \<noteq> 0" "count_L s = of_nat m" "m < 40000"
  shows "STATE_L (repeating_timer_callback_core_0 s) = (if m = 39999 then 0 else STATE_L s)"
    and "count_L (repeating_timer_callback_core_0 s) = (if m = 39999 then 0 else of_nat (Suc m))"
    and "current_amplitude_0 (repeating_timer_callback_core_0 s) =
           (if m = 39999 then 0 else current_amplitude_0 s)"
proof -
  have m: "m < 50000" using assms(3) by simp
  show "STATE_L (repeating_timer_callback_core_0 s) = (if m = 39999 then 0 else STATE_L s)"
    using assms by (simp add: repeating_timer_callback_core_0_def Let_def macro_values
        count_compare [OF m])
  show "count_L (repeating_timer_callback_core_0 s) = (if m = 39999 then 0 else of_nat (Suc m))"
    using assms by (simp add: repeating_timer_callback_core_0_def Let_def macro_values
        count_compare [OF m])
  show "current_amplitude_0 (repeating_timer_callback_core_0 s) =
           (if m = 39999 then 0 else current_amplitude_0 s)"
    using assms by (simp add: repeating_timer_callback_core_0_def Let_def macro_values
        count_compare [OF m])
qed

lemma envelope_step:
  assumes "n < 50000" "envelope_0 s = envelope_at n" "attack_inc s = 10" "decay_inc s = 10"
  shows "envelope_0 (repeating_timer_callback_core_0 s) = envelope_at (Suc n mod 50000)"
proof (cases "n < 10000")
  case True
  with assms(2) have s: "STATE_L s = 0" "count_L s = of_nat n"
    "current_amplitude_0 s = word_of_int (amplitude_at n)"
    by (simp_all add: envelope_0_def envelope_at_def)
  have "amplitude_at 10000 = 10" by (simp add: amplitude_at_def)
  then show ?thesis
    using True active_tick [OF s(1) s(2) True s(3) assms(3) assms(4)]
    by (cases "n = 9999") (simp_all add: envelope_0_def envelope_at_def)
next
  case False
  with assms(2) have s: "STATE_L s = 1" "count_L s = of_nat (n - 10000)"
    "current_amplitude_0 s = 10"
    by (simp_all add: envelope_0_def envelope_at_def)
  have s0: "STATE_L s \<noteq> 0" using s(1) by simp
  have m: "n - 10000 < 40000" using assms(1) by simp
  show ?thesis
  proof (cases "n = 49999")
    case True
    then show ?thesis
      using s silent_tick [OF s0 s(2) m]
      by (simp add: envelope_0_def envelope_at_def amplitude_at_def)
  next
    case neq: False
    then have "Suc n mod 50000 = Suc n" "\<not> Suc n < 10000" "Suc n - 10000 = Suc (n - 10000)"
      using False assms(1) by simp_all
    moreover have "n - 10000 \<noteq> 39999" using neq False by simp
    ultimately show ?thesis
      using s silent_tick [OF s0 s(2) m]
      by (simp add: envelope_0_def envelope_at_def)
  qed
qed

text \<open>The same three facts for the callback of core 1.\<close>

lemma active_tick_core_1:
  assumes "STATE_R s = 0" "count_R s = of_nat n" "n < 10000"
    and "current_amplitude_1 s = word_of_int (amplitude_at n)"
    and "attack_inc s = 10" "decay_inc s = 10"
  shows "STATE_R (repeating_timer_callback_core_1 s) = (if n = 9999 then 1 else 0)"
    and "count_R (repeating_timer_callback_core_1 s) = (if n = 9999 then 0 else of_nat (Suc n))"
    and "current_amplitude_1 (repeating_timer_callback_core_1 s) = word_of_int (amplitude_at (Suc n))"
proof -
  have n: "n < 50000" using assms(3) by simp
  show "STATE_R (repeating_timer_callback_core_1 s) = (if n = 9999 then 1 else 0)"
    using assms by (simp add: repeating_timer_callback_core_1_def Let_def macro_values
        count_compare [OF n])
  show "count_R (repeating_timer_callback_core_1 s) = (if n = 9999 then 0 else of_nat (Suc n))"
    using assms by (simp add: repeating_timer_callback_core_1_def Let_def macro_values
        count_compare [OF n])
  consider "n < 3000" | "3000 \<le> n" "n \<le> 7000" | "7000 < n" by linarith
  then show "current_amplitude_1 (repeating_timer_callback_core_1 s) = word_of_int (amplitude_at (Suc n))"
  proof cases
    case 1
    then show ?thesis
      using assms by (simp add: repeating_timer_callback_core_1_def Let_def macro_values
          count_compare [OF n] amplitude_at_Suc)
  next
    case 2
    then show ?thesis
      using assms by (simp add: repeating_timer_callback_core_1_def Let_def macro_values
          count_compare [OF n] amplitude_at_Suc)
  next
    case 3
    then show ?thesis
      using assms by (simp add: repeating_timer_callback_core_1_def Let_def macro_values
          count_compare [OF n] amplitude_at_Suc)
  qed
qed

lemma silent_tick_core_1:
  assumes "STATE_R s \<noteq> 0" "count_R s = of_nat m" "m < 40000"
  shows "STATE_R (repeating_timer_callback_core_1 s) = (if m = 39999 then 0 else STATE_R s)"
    and "count_R (repeating_timer_callback_core_1 s) = (if m = 39999 then 0 else of_nat (Suc m))"
    and "current_amplitude_1 (repeating_timer_callback_core_1 s) =
           (if m = 39999 then 0 else current_amplitude_1 s)"
proof -
  have m: "m < 50000" using assms(3) by simp
  show "STATE_R (repeating_timer_callback_core_1 s) = (if m = 39999 then 0 else STATE_R s)"
    using assms by (simp add: repeating_timer_callback_core_1_def Let_def macro_values
        count_compare [OF m])
  show "count_R (repeating_timer_callback_core_1 s) = (if m = 39999 then 0 else of_nat (Suc m))"
    using assms by (simp add: repeating_timer_callback_core_1_def Let_def macro_values
        count_compare [OF m])
  show "current_amplitude_1 (repeating_timer_callback_core_1 s) =
           (if m = 39999 then 0 else current_amplitude_1 s)"
    using assms by (simp add: repeating_timer_callback_core_1_def Let_def macro_values
        count_compare [OF m])
qed

lemma envelope_step_core_1:
  assumes "n < 50000" "envelope_1 s = envelope_at n" "attack_inc s = 10" "decay_inc s = 10"
  shows "envelope_1 (repeating_timer_callback_core_1 s) = envelope_at (Suc n mod 50000)"
proof (cases "n < 10000")
  case True
  with assms(2) have s: "STATE_R s = 0" "count_R s = of_nat n"
    "current_amplitude_1 s = word_of_int (amplitude_at n)"
    by (simp_all add: envelope_1_def envelope_at_def)
  have "amplitude_at 10000 = 10" by (simp add: amplitude_at_def)
  then show ?thesis
    using True active_tick_core_1 [OF s(1) s(2) True s(3) assms(3) assms(4)]
    by (cases "n = 9999") (simp_all add: envelope_1_def envelope_at_def)
next
  case False
  with assms(2) have s: "STATE_R s = 1" "count_R s = of_nat (n - 10000)"
    "current_amplitude_1 s = 10"
    by (simp_all add: envelope_1_def envelope_at_def)
  have s0: "STATE_R s \<noteq> 0" using s(1) by simp
  have m: "n - 10000 < 40000" using assms(1) by simp
  show ?thesis
  proof (cases "n = 49999")
    case True
    then show ?thesis
      using s silent_tick_core_1 [OF s0 s(2) m]
      by (simp add: envelope_1_def envelope_at_def amplitude_at_def)
  next
    case neq: False
    then have "Suc n mod 50000 = Suc n" "\<not> Suc n < 10000" "Suc n - 10000 = Suc (n - 10000)"
      using False assms(1) by simp_all
    moreover have "n - 10000 \<noteq> 39999" using neq False by simp
    ultimately show ?thesis
      using s silent_tick_core_1 [OF s0 s(2) m]
      by (simp add: envelope_1_def envelope_at_def)
  qed
qed

subsection \<open>Runs of ticks and reachable states\<close>

lemma ticks_core_0_frame:
  "attack_inc (ticks_core_0 n s) = attack_inc s \<and> decay_inc (ticks_core_0 n s) = decay_inc s"
  by (induction n) (simp_all add: callback_core_0_frame)

lemma ticks_core_0_envelope:
  assumes "envelope_0 s = envelope_at 0" "attack_inc s = 10" "decay_inc s = 10"
  shows "envelope_0 (ticks_core_0 n s) = envelope_at (n mod 50000)"
proof (induction n)
  case 0
  then show ?case using assms(1) by simp
next
  case (Suc n)
  have "envelope_0 (ticks_core_0 (Suc n) s) = envelope_at (Suc (n mod 50000) mod 50000)"
    using Suc ticks_core_0_frame [of n s] assms(2,3)
    by (simp add: envelope_step)
  then show ?case by (simp add: mod_Suc_eq)
qed

lemma ticks_core_0_reachable:
  "dds_reachable tbl s \<Longrightarrow> dds_reachable tbl (ticks_core_0 n s)"
  by (induction n) (simp_all add: dds_reachable.tick_core_0)

lemma ticks_core_1_frame:
  "attack_inc (ticks_core_1 n s) = attack_inc s \<and> decay_inc (ticks_core_1 n s) = decay_inc s"
  by (induction n) (simp_all add: callback_core_1_frame)

lemma ticks_core_1_envelope:
  assumes "envelope_1 s = envelope_at 0" "attack_inc s = 10" "decay_inc s = 10"
  shows "envelope_1 (ticks_core_1 n s) = envelope_at (n mod 50000)"
proof (induction n)
  case 0
  then show ?case using assms(1) by simp
next
  case (Suc n)
  have "envelope_1 (ticks_core_1 (Suc n) s) = envelope_at (Suc (n mod 50000) mod 50000)"
    using Suc ticks_core_1_frame [of n s] assms(2,3)
    by (simp add: envelope_step_core_1)
  then show ?case by (simp add: mod_Suc_eq)
qed

lemma ticks_core_1_reachable:
  "dds_reachable tbl s \<Longrightarrow> dds_reachable tbl (ticks_core_1 n s)"
  by (induction n) (simp_all add: dds_reachable.tick_core_1)

lemma reachable_envelope:
  assumes "dds_reachable tbl s"
  shows "attack_inc s = 10 \<and> decay_inc s = 10 \<and> sin_table s = tbl
         \<and> (\<exists>n<50000. envelope_0 s = envelope_at n)"
  using assms
proof (induction rule: dds_reachable.induct)
  case (start s)
  then have s: "s = (dds_globals tbl)\<lparr>attack_inc := 10, decay_inc := 10\<rparr>"
    by (simp add: main_dds_setup_def envelope_increments)
  have "envelope_0 s = envelope_at 0"
    by (simp add: s envelope_0_def envelope_at_def amplitude_at_def dds_globals_def)
  then have "\<exists>n<50000. envelope_0 s = envelope_at n" by (intro exI [of _ 0]) simp
  then show ?case by (simp add: s dds_globals_def)
next
  case (tick_core_0 s)
  then obtain n where n: "n < 50000" "envelope_0 s = envelope_at n" by blast
  have "envelope_0 (repeating_timer_callback_core_0 s) = envelope_at (Suc n mod 50000)"
    using n tick_core_0.IH by (simp add: envelope_step)
  moreover have "Suc n mod 50000 < 50000" by simp
  ultimately have "\<exists>m<50000. envelope_0 (repeating_timer_callback_core_0 s) = envelope_at m"
    by blast
  then show ?case using tick_core_0.IH by (simp add: callback_core_0_frame)
next
  case (tick_core_1 s)
  then show ?case
    by (simp add: callback_core_1_frame envelope_0_def)
qed

lemma reachable_corenum:
  assumes "dds_reachable tbl s"
  shows "corenum_0 s = 0 \<and> (corenum_1 s = 1 \<or> STATE_R s = 0)"
  using assms
proof (induction rule: dds_reachable.induct)
  case (start s)
  then have s: "s = (dds_globals tbl)\<lparr>attack_inc := 10, decay_inc := 10\<rparr>"
    by (simp add: main_dds_setup_def envelope_increments)
  show ?case by (simp add: s dds_globals_def)
next
  case (tick_core_0 s)
  then show ?case by (simp add: repeating_timer_callback_core_0_def Let_def)
next
  case (tick_core_1 s)
  then show ?case by (simp add: repeating_timer_callback_core_1_def Let_def)
qed

lemma reachable_active_amplitude:
  assumes "dds_reachable tbl s" "STATE_L s = 0"
  shows "even (sint (current_amplitude_0 s)) \<and> 0 \<le> sint (current_amplitude_0 s)
         \<and> sint (current_amplitude_0 s) \<le> 30000"
proof -
  from reachable_envelope [OF assms(1)] obtain n where
    n: "n < 50000" "envelope_0 s = envelope_at n" by blast
  have "n < 10000"
    using n(2) assms(2) by (cases "n < 10000") (simp_all add: envelope_0_def envelope_at_def)
  then have a: "current_amplitude_0 s = word_of_int (amplitude_at n)"
    using n(2) by (simp add: envelope_0_def envelope_at_def)
  have r: "0 \<le> amplitude_at n \<and> amplitude_at n \<le> 30000"
    using \<open>n < 10000\<close> by (simp add: amplitude_at_range)
  then have "sint (current_amplitude_0 s) = amplitude_at n"
    by (simp add: a sint_small)
  then show ?thesis using r amplitude_at_even [of n] by simp
qed

lemma main_dds_setup_flat: "main_dds_setup flat_table = Inr dds_start"
  by (simp add: main_dds_setup_def envelope_increments dds_start_def)

lemma dds_start_reachable: "dds_reachable flat_table dds_start"
  by (rule dds_reachable.start) (rule main_dds_setup_flat)

lemma dds_start_fields:
  "STATE_L dds_start = 0" "count_L dds_start = 0" "current_amplitude_0 dds_start = 0"
  "attack_inc dds_start = 10" "decay_inc dds_start = 10"
  "STATE_R dds_start = 0" "count_R dds_start = 0" "current_amplitude_1 dds_start = 0"
  "phase_accum_main_0 dds_start = 0" "spi_port dds_start = []" "sin_table dds_start = flat_table"
  by (simp_all add: dds_start_def dds_globals_def)

lemma envelope_run:
  assumes "STATE_L s = 0" "count_L s = 0" "current_amplitude_0 s = 0"
    and "attack_inc s = 10" "decay_inc s = 10"
  shows "n < 10000 \<Longrightarrow> STATE_L (ticks_core_0 n s) = 0 \<and> count_L (ticks_core_0 n s) = of_nat n"
    and "n \<le> 10000 \<Longrightarrow> current_amplitude_0 (ticks_core_0 n s) = word_of_int (amplitude_at n)"
    and "10000 \<le> n \<Longrightarrow> n < 50000 \<Longrightarrow>
           STATE_L (ticks_core_0 n s) = 1 \<and> count_L (ticks_core_0 n s) = of_nat (n - 10000)
           \<and> current_amplitude_0 (ticks_core_0 n s) = 10"
    and "STATE_L (ticks_core_0 50000 s) = 0 \<and> count_L (ticks_core_0 50000 s) = 0
           \<and> current_amplitude_0 (ticks_core_0 50000 s) = 0"
proof -
  have "envelope_0 s = envelope_at 0"
    using assms(1-3) by (simp add: envelope_0_def envelope_at_def amplitude_at_def)
  then have e: "envelope_0 (ticks_core_0 k s) = envelope_at (k mod 50000)" for k
    using assms(4,5) by (rule ticks_core_0_envelope)
  show "n < 10000 \<Longrightarrow> STATE_L (ticks_core_0 n s) = 0 \<and> count_L (ticks_core_0 n s) = of_nat n"
    using e [of n] by (simp add: envelope_0_def envelope_at_def)
  show "n \<le> 10000 \<Longrightarrow> current_amplitude_0 (ticks_core_0 n s) = word_of_int (amplitude_at n)"
    using e [of n] by (cases "n = 10000") (simp_all add: envelope_0_def envelope_at_def amplitude_at_def)
  show "10000 \<le> n \<Longrightarrow> n < 50000 \<Longrightarrow>
           STATE_L (ticks_core_0 n s) = 1 \<and> count_L (ticks_core_0 n s) = of_nat (n - 10000)
           \<and> current_amplitude_0 (ticks_core_0 n s) = 10"
    using e [of n] by (simp add: envelope_0_def envelope_at_def)
  show "STATE_L (ticks_core_0 50000 s) = 0 \<and> count_L (ticks_core_0 50000 s) = 0
           \<and> current_amplitude_0 (ticks_core_0 50000 s) = 0"
    using e [of 50000] by (simp add: envelope_0_def envelope_at_def amplitude_at_def)
qed

lemma sint_amplitude_run:
  assumes "STATE_L s = 0" "count_L s = 0" "current_amplitude_0 s = 0"
    and "attack_inc s = 10" "decay_inc s = 10" and "n \<le> 10000"
  shows "sint (current_amplitude_0 (ticks_core_0 n s)) = amplitude_at n"
  using envelope_run(2) [OF assms] amplitude_at_range [OF assms(6)]
  by (simp add: sint_small)

lemma envelope_run_core_1:
  assumes "STATE_R s = 0" "count_R s = 0" "current_amplitude_1 s = 0"
    and "attack_inc s = 10" "decay_inc s = 10"
  shows "n < 10000 \<Longrightarrow> STATE_R (ticks_core_1 n s) = 0 \<and> count_R (ticks_core_1 n s) = of_nat n"
    and "n \<le> 10000 \<Longrightarrow> current_amplitude_1 (ticks_core_1 n s) = word_of_int (amplitude_at n)"
    and "10000 \<le> n \<Longrightarrow> n < 50000 \<Longrightarrow>
           STATE_R (ticks_core_1 n s) = 1 \<and> count_R (ticks_core_1 n s) = of_nat (n - 10000)
           \<and> current_amplitude_1 (ticks_core_1 n s) = 10"
    and "STATE_R (ticks_core_1 50000 s) = 0 \<and> count_R (ticks_core_1 50000 s) = 0
           \<and> current_amplitude_1 (ticks_core_1 50000 s) = 0"
proof -
  have "envelope_1 s = envelope_at 0"
    using assms(1-3) by (simp add: envelope_1_def envelope_at_def amplitude_at_def)
  then have e: "envelope_1 (ticks_core_1 k s) = envelope_at (k mod 50000)" for k
    using assms(4,5) by (rule ticks_core_1_envelope)
  show "n < 10000 \<Longrightarrow> STATE_R (ticks_core_1 n s) = 0 \<and> count_R (ticks_core_1 n s) = of_nat n"
    using e [of n] by (simp add: envelope_1_def envelope_at_def)
  show "n \<le> 10000 \<Longrightarrow> current_amplitude_1 (ticks_core_1 n s) = word_of_int (amplitude_at n)"
    using e [of n] by (cases "n = 10000") (simp_all add: envelope_1_def envelope_at_def amplitude_at_def)
  show "10000 \<le> n \<Longrightarrow> n < 50000 \<Longrightarrow>
           STATE_R (ticks_core_1 n s) = 1 \<and> count_R (ticks_core_1 n s) = of_nat (n - 10000)
           \<and> current_amplitude_1 (ticks_core_1 n s) = 10"
    using e [of n] by (simp add: envelope_1_def envelope_at_def)
  show "STATE_R (ticks_core_1 50000 s) = 0 \<and> count_R (ticks_core_1 50000 s) = 0
           \<and> current_amplitude_1 (ticks_core_1 50000 s) = 0"
    using e [of 50000] by (simp add: envelope_1_def envelope_at_def amplitude_at_def)
qed

subsection \<open>Order of the two multiplications in the output sample\<close>

lemma scaled_product_range:
  fixes a b :: int
  assumes "0 \<le> a" "a \<le> 30000" "- (2 ^ 31) \<le> b" "b < 2 ^ 31"
  shows "- (2 ^ 31) \<le> a * b div 2 ^ 15 \<and> a * b div 2 ^ 15 < 2 ^ 31"
proof -
  have "\<bar>a\<bar> \<le> 30000" "\<bar>b\<bar> \<le> 2 ^ 31" using assms by auto
  then have "\<bar>a\<bar> * \<bar>b\<bar> \<le> 30000 * 2 ^ 31" by (intro mult_mono) auto
  then have ab: "\<bar>a * b\<bar> \<le> 30000 * 2 ^ 31" by (simp add: abs_mult)
  then have "a * b \<le> 30000 * 2 ^ 31" by linarith
  then have u: "a * b div 2 ^ 15 \<le> (30000 * 2 ^ 31) div 2 ^ 15"
    by (intro zdiv_mono1) auto
  have "- (30000 * 2 ^ 31) \<le> a * b" using ab by linarith
  then have l: "(- (30000 * 2 ^ 31)) div 2 ^ 15 \<le> a * b div 2 ^ 15"
    by (intro zdiv_mono1) auto
  from u l show ?thesis by simp
qed

lemma multfix15_scale_out_commute:
  assumes "even (sint a)" "0 \<le> sint a" "sint a \<le> 30000"
  shows "multfix15 (multfix15 a scale_out) b = multfix15 (multfix15 a b) scale_out"
proof -
  obtain k where k: "sint a = 2 * k" using assms(1) by (elim evenE)
  have kr: "0 \<le> k" "k \<le> 15000" using assms(2,3) k by simp_all
  have b: "- (2 ^ 31) \<le> sint b" "sint b < 2 ^ 31"
    using sint_ge [of b] sint_lt [of b] by simp_all
  have "sint (multfix15 a scale_out) = signed_take_bit 31 (2 * k * 16384 div 2 ^ 15)"
    by (simp add: sint_multfix15 scale_out_def k)
  also have "2 * k * 16384 div 2 ^ 15 = k" by simp
  finally have half: "sint (multfix15 a scale_out) = k"
    using kr by (simp add: signed_take_bit_int_eq_self)
  have r: "- (2 ^ 31) \<le> sint a * sint b div 2 ^ 15 \<and> sint a * sint b div 2 ^ 15 < 2 ^ 31"
    using assms(2,3) b by (rule scaled_product_range)
  have prod: "sint (multfix15 a b) = 2 * k * sint b div 2 ^ 15"
    using r by (simp add: sint_multfix15 k signed_take_bit_int_eq_self)
  have "2 * k * sint b div 2 ^ 15 * 16384 div 2 ^ 15 = 2 * k * sint b div 2 ^ 15 div 2"
    by simp
  also have "\<dots> = 2 * (k * sint b) div (2 ^ 15 * 2)"
    by (simp add: zdiv_zmult2_eq mult.assoc)
  also have "\<dots> = k * sint b div 2 ^ 15"
    by simp
  finally have "sint (multfix15 (multfix15 a b) scale_out) = signed_take_bit 31 (k * sint b div 2 ^ 15)"
    by (simp add: sint_multfix15 [of "multfix15 a b"] prod scale_out_def)
  moreover have "sint (multfix15 (multfix15 a scale_out) b) = signed_take_bit 31 (k * sint b div 2 ^ 15)"
    by (simp add: sint_multfix15 [of "multfix15 a scale_out"] half)
  ultimately have "sint (multfix15 (multfix15 a scale_out) b) = sint (multfix15 (multfix15 a b) scale_out)"
    by simp
  then show ?thesis by (rule signed_word_eqI)
qed

subsection \<open>The phase accumulator over a run, and a run with a table that is not flat\<close>

lemma main_dds_setup_wave: "main_dds_setup wave_table = Inr wave_start"
  by (simp add: main_dds_setup_def envelope_increments wave_start_def)

lemma wave_start_reachable: "dds_reachable wave_table wave_start"
  by (rule dds_reachable.start) (rule main_dds_setup_wave)

lemma wave_start_fields:
  "STATE_L wave_start = 0" "count_L wave_start = 0" "current_amplitude_0 wave_start = 0"
  "attack_inc wave_start = 10" "decay_inc wave_start = 10"
  "phase_accum_main_0 wave_start = 0" "sin_table wave_start = wave_table"
  by (simp_all add: wave_start_def dds_globals_def)

lemma phase_run:
  assumes "STATE_L s = 0" "count_L s = 0" "current_amplitude_0 s = 0"
    and "attack_inc s = 10" "decay_inc s = 10"
  shows "n \<le> 10000 \<Longrightarrow>
         phase_accum_main_0 (ticks_core_0 n s) = phase_accum_main_0 s + of_nat n * phase_incr_main_0"
proof (induction n)
  case 0
  then show ?case by simp
next
  case (Suc n)
  then have n: "n < 10000" by simp
  have "STATE_L (ticks_core_0 n s) = 0"
    using envelope_run(1) [OF assms n] by simp
  then have "phase_accum_main_0 (ticks_core_0 (Suc n) s)
        = phase_accum_main_0 (ticks_core_0 n s) + phase_incr_main_0"
    by (simp add: repeating_timer_callback_core_0_def Let_def)
  then show ?case using Suc.IH n by (simp add: algebra_simps)
qed

lemma ticks_core_0_table: "sin_table (ticks_core_0 n s) = sin_table s"
  by (induction n) (simp_all add: callback_core_0_frame)

text \<open>
  Off the amplitudes the system reaches the order of the two multiplications matters: at
  amplitude \<open>2 ^ -15\<close> (raw 1) and sine value 2.0 (raw 65536) the order of the source
  gives 0 and the other order gives raw 1.
\<close>

lemma multfix15_order_matters:
  "multfix15 (multfix15 1 scale_out) 65536 = 0" "multfix15 (multfix15 1 65536) scale_out = 1"
  by (simp_all add: multfix15_def scale_out_def)

subsection \<open>The output sample of an ACTIVE tick\<close>

text \<open>
  Claim C6. On every timer tick of core 0 in the ACTIVE state (\<open>STATE_L = 0\<close>), from any
  state whatever and with any sine table: the phase accumulator is incremented by the phase
  increment with wrap-around; the sine value is the table entry at the top 8 bits
  (\<open>>> 24\<close>) of the incremented accumulator; the output sample is computed as the source
  writes it, \<open>fix2int15 (multfix15 (multfix15 amplitude scale_out) sine_value) + 2048\<close>,
  with the amplitude as it is before the envelope update of this tick; and the word
  written to the SPI port is the sample cut to 16 bits by the mask \<open>0xffff\<close> and combined
  with the channel bits, a truncation and not a saturation. In every state the running
  system reaches (from the set-up of \<open>main\<close>, whatever the table), the sample is also
  \<open>fix2int15 (multfix15 (multfix15 amplitude sine_value) scale_out) + 2048\<close>, the order
  in which the claim multiplies: there both orders give the same word.
\<close>

theorem dds_active_tick_sample:
  assumes "STATE_L s = 0"
  shows "phase_accum_main_0 (repeating_timer_callback_core_0 s)
           = phase_accum_main_0 s + phase_incr_main_0
       \<and> DAC_output_0 (repeating_timer_callback_core_0 s)
           = fix2int15 (multfix15
               (multfix15 (current_amplitude_0 s) scale_out)
               (sin_table s
                  (ucast (drop_bit 24 (phase_accum_main_0 (repeating_timer_callback_core_0 s))))))
             + 2048
       \<and> (dds_reachable tbl s \<longrightarrow>
            DAC_output_0 (repeating_timer_callback_core_0 s)
              = fix2int15 (multfix15
                  (multfix15 (current_amplitude_0 s)
                     (tbl (ucast (drop_bit 24
                        (phase_accum_main_0 (repeating_timer_callback_core_0 s))))))
                  scale_out) + 2048)
       \<and> DAC_data_L (repeating_timer_callback_core_0 s)
           = ucast (DAC_config_chan_B OR (DAC_output_0 (repeating_timer_callback_core_0 s) AND 0xffff))
       \<and> spi_port (repeating_timer_callback_core_0 s)
           = spi_port s @ [DAC_data_L (repeating_timer_callback_core_0 s)]"
proof -
  have p: "phase_accum_main_0 (repeating_timer_callback_core_0 s)
           = phase_accum_main_0 s + phase_incr_main_0"
    using assms by (simp add: repeating_timer_callback_core_0_def Let_def)
  have "DAC_output_0 (repeating_timer_callback_core_0 s)
           = fix2int15 (multfix15 (multfix15 (current_amplitude_0 s) scale_out)
               (sin_table s (ucast (drop_bit 24 (phase_accum_main_0 s + phase_incr_main_0))))) + 2048"
    using assms by (simp add: repeating_timer_callback_core_0_def Let_def)
  then have d: "DAC_output_0 (repeating_timer_callback_core_0 s)
           = fix2int15 (multfix15
               (multfix15 (current_amplitude_0 s) scale_out)
               (sin_table s
                  (ucast (drop_bit 24 (phase_accum_main_0 (repeating_timer_callback_core_0 s))))))
             + 2048"
    by (simp only: p)
  have r: "dds_reachable tbl s \<longrightarrow>
            DAC_output_0 (repeating_timer_callback_core_0 s)
              = fix2int15 (multfix15
                  (multfix15 (current_amplitude_0 s)
                     (tbl (ucast (drop_bit 24
                        (phase_accum_main_0 (repeating_timer_callback_core_0 s))))))
                  scale_out) + 2048"
  proof
    assume reach: "dds_reachable tbl s"
    have tbl: "sin_table s = tbl"
      using reachable_envelope [OF reach] by simp
    have amp: "even (sint (current_amplitude_0 s))" "0 \<le> sint (current_amplitude_0 s)"
      "sint (current_amplitude_0 s) \<le> 30000"
      using reachable_active_amplitude [OF reach assms] by simp_all
    note swap = multfix15_scale_out_commute [OF amp]
    show "DAC_output_0 (repeating_timer_callback_core_0 s)
              = fix2int15 (multfix15
                  (multfix15 (current_amplitude_0 s)
                     (tbl (ucast (drop_bit 24
                        (phase_accum_main_0 (repeating_timer_callback_core_0 s))))))
                  scale_out) + 2048"
      using d by (simp only: swap tbl)
  qed
  have w: "DAC_data_L (repeating_timer_callback_core_0 s)
           = ucast (DAC_config_chan_B OR (DAC_output_0 (repeating_timer_callback_core_0 s) AND 0xffff))"
    using assms by (simp add: repeating_timer_callback_core_0_def Let_def)
  have q: "spi_port (repeating_timer_callback_core_0 s)
           = spi_port s @ [DAC_data_L (repeating_timer_callback_core_0 s)]"
    using assms by (simp add: repeating_timer_callback_core_0_def Let_def)
  from p d r w q show ?thesis by (intro conjI)
qed


theorem dds_active_tick_sample_witness:
  "dds_reachable wave_table (ticks_core_0 100 wave_start)
   \<and> STATE_L (ticks_core_0 100 wave_start) = 0
   \<and> current_amplitude_0 (ticks_core_0 100 wave_start) = 1000
   \<and> phase_accum_main_0 (repeating_timer_callback_core_0 (ticks_core_0 100 wave_start))
       = 3468186039
   \<and> sin_table (ticks_core_0 100 wave_start) (ucast (drop_bit 24 (3468186039 :: 32 word)))
       = - 26214400
   \<and> DAC_output_0 (repeating_timer_callback_core_0 (ticks_core_0 100 wave_start)) = 2035
   \<and> DAC_data_L (repeating_timer_callback_core_0 (ticks_core_0 100 wave_start)) = 0xB7F3
   \<and> spi_port (repeating_timer_callback_core_0 (ticks_core_0 100 wave_start))
       = spi_port (ticks_core_0 100 wave_start) @ [0xB7F3]"
proof -
  let ?s = "ticks_core_0 100 wave_start"
  note start = wave_start_fields(1-5)
  have reach: "dds_reachable wave_table ?s"
    by (rule ticks_core_0_reachable [OF wave_start_reachable])
  have st: "STATE_L ?s = 0"
    using envelope_run(1) [OF start, of 100] by simp
  have "current_amplitude_0 ?s = word_of_int (amplitude_at 100)"
    by (rule envelope_run(2) [OF start]) simp
  then have amp: "current_amplitude_0 ?s = 1000"
    by (simp add: amplitude_at_def)
  have "phase_accum_main_0 ?s = phase_accum_main_0 wave_start + of_nat 100 * phase_incr_main_0"
    by (rule phase_run [OF start]) simp
  then have ph: "phase_accum_main_0 ?s + phase_incr_main_0 = 3468186039"
    by (simp add: wave_start_fields phase_incr_main_0_def)
  have tb: "sin_table ?s = wave_table"
    by (simp add: ticks_core_0_table wave_start_fields)
  have sine: "wave_table (ucast (drop_bit 24 (3468186039 :: 32 word))) = - 26214400"
    by (simp add: wave_table_def int2fix15_def)
  note t = dds_active_tick_sample [OF st, of wave_table]
  note t_phase = t [THEN conjunct1]
  note t_code = t [THEN conjunct2, THEN conjunct1]
  note t_claim = t [THEN conjunct2, THEN conjunct2, THEN conjunct1, rule_format, OF reach]
  note t_data = t [THEN conjunct2, THEN conjunct2, THEN conjunct2, THEN conjunct1]
  note t_spi = t [THEN conjunct2, THEN conjunct2, THEN conjunct2, THEN conjunct2]
  have p: "phase_accum_main_0 (repeating_timer_callback_core_0 ?s) = 3468186039"
    using t_phase ph by simp
  have "DAC_output_0 (repeating_timer_callback_core_0 ?s)
        = fix2int15 (multfix15 (multfix15 1000 scale_out) (- 26214400)) + 2048"
    using t_code by (simp only: p amp tb sine)
  then have d: "DAC_output_0 (repeating_timer_callback_core_0 ?s) = 2035"
    by (simp add: multfix15_def fix2int15_def scale_out_def)
  have "DAC_output_0 (repeating_timer_callback_core_0 ?s)
        = fix2int15 (multfix15 (multfix15 1000 (- 26214400)) scale_out) + 2048"
    using t_claim by (simp only: p amp sine)
  then have d': "DAC_output_0 (repeating_timer_callback_core_0 ?s) = 2035"
    by (simp add: multfix15_def fix2int15_def scale_out_def)
  have w: "DAC_data_L (repeating_timer_callback_core_0 ?s) = 0xB7F3"
    using t_data by (simp add: d DAC_config_chan_B_def)
  have q: "spi_port (repeating_timer_callback_core_0 ?s) = spi_port ?s @ [0xB7F3]"
    using t_spi by (simp only: w)
  from reach st amp p sine d d' w q show ?thesis
    by (simp only: tb)
qed

subsection \<open>The amplitude in the SILENT state\<close>

text \<open>
  Claim C7 fails on the source. The decay ramp subtracts \<open>decay_inc\<close> on the 2999 ticks
  with \<open>count_L\<close> from 7001 to 9999, so the first ACTIVE phase ends with amplitude
  \<open>30000 - 29990 = 10\<close>: 10000 ticks after start-up the state is reachable, SILENT, and
  its amplitude is 10, not 0.
\<close>

theorem silent_amplitude_not_zero:
  "main_dds_setup flat_table = Inr dds_start
   \<and> dds_reachable flat_table (ticks_core_0 10000 dds_start)
   \<and> STATE_L (ticks_core_0 10000 dds_start) = 1
   \<and> current_amplitude_0 (ticks_core_0 10000 dds_start) = 10"
proof -
  have "STATE_L (ticks_core_0 10000 dds_start) = 1
      \<and> count_L (ticks_core_0 10000 dds_start) = of_nat (10000 - 10000)
      \<and> current_amplitude_0 (ticks_core_0 10000 dds_start) = 10"
    by (rule envelope_run(3)) (simp_all add: dds_start_fields)
  then show ?thesis
    using main_dds_setup_flat ticks_core_0_reachable [OF dds_start_reachable, of 10000]
    by simp
qed

text \<open>
  Claim C7, amended. In the SILENT state a tick that does not bring the counter to
  \<^verbatim>\<open>BEEP_REPEAT_INTERVAL\<close> leaves the amplitude and the state as they are (the amplitude
  is not forced to 0 during SILENT); on the tick where the counter reaches
  \<^verbatim>\<open>BEEP_REPEAT_INTERVAL\<close> the machine sets the amplitude to exactly 0, switches to
  ACTIVE and resets the counter to 0.
\<close>

theorem silent_amplitude_cleared_on_wake:
  assumes "STATE_L s \<noteq> 0"
  shows "(count_L s + 1 \<noteq> BEEP_REPEAT_INTERVAL \<longrightarrow>
            current_amplitude_0 (repeating_timer_callback_core_0 s) = current_amplitude_0 s
            \<and> STATE_L (repeating_timer_callback_core_0 s) = STATE_L s)
       \<and> (count_L s + 1 = BEEP_REPEAT_INTERVAL \<longrightarrow>
            current_amplitude_0 (repeating_timer_callback_core_0 s) = 0
            \<and> STATE_L (repeating_timer_callback_core_0 s) = 0
            \<and> count_L (repeating_timer_callback_core_0 s) = 0)"
  using assms by (simp add: repeating_timer_callback_core_0_def Let_def)

theorem silent_amplitude_cleared_on_wake_witness:
  "STATE_L (dds_start\<lparr>STATE_L := 1, count_L := 39999, current_amplitude_0 := 10\<rparr>) \<noteq> 0
   \<and> current_amplitude_0 (repeating_timer_callback_core_0
         (dds_start\<lparr>STATE_L := 1, count_L := 39999, current_amplitude_0 := 10\<rparr>)) = 0
   \<and> STATE_L (repeating_timer_callback_core_0
         (dds_start\<lparr>STATE_L := 1, count_L := 39999, current_amplitude_0 := 10\<rparr>)) = 0
   \<and> STATE_L (dds_start\<lparr>STATE_L := 1, count_L := 5, current_amplitude_0 := 10\<rparr>) \<noteq> 0
   \<and> current_amplitude_0 (repeating_timer_callback_core_0
         (dds_start\<lparr>STATE_L := 1, count_L := 5, current_amplitude_0 := 10\<rparr>)) = 10"
  using silent_amplitude_cleared_on_wake
          [of "dds_start\<lparr>STATE_L := 1, count_L := 39999, current_amplitude_0 := 10\<rparr>"]
        silent_amplitude_cleared_on_wake
          [of "dds_start\<lparr>STATE_L := 1, count_L := 5, current_amplitude_0 := 10\<rparr>"]
  by (simp add: macro_values)

subsection \<open>Shape of the envelope and length of a cycle\<close>

text \<open>
  Claim C8. Start at the beginning of an ACTIVE phase with amplitude 0 and the increments
  \<open>main\<close> computes, and iterate the tick of core 0. During the first \<^verbatim>\<open>BEEP_DURATION\<close>
  ticks the state stays ACTIVE and the counter equals the number of ticks so far; the
  (signed) amplitude does not decrease from one tick to the next while the counter is in
  \<open>[0, ATTACK_TIME)\<close>, is unchanged while the counter is in
  \<open>[ATTACK_TIME, BEEP_DURATION - DECAY_TIME]\<close>, and does not increase while the counter
  is in \<open>[BEEP_DURATION - DECAY_TIME, BEEP_DURATION)\<close>. After exactly \<^verbatim>\<open>BEEP_DURATION\<close>
  ticks the state is SILENT and stays so for \<^verbatim>\<open>BEEP_REPEAT_INTERVAL\<close> ticks; after exactly
  \<open>BEEP_DURATION + BEEP_REPEAT_INTERVAL\<close> ticks the state is ACTIVE again with the counter
  at 0: one full cycle.
\<close>

theorem envelope_shape_and_cycle:
  assumes "STATE_L s = 0" "count_L s = 0" "current_amplitude_0 s = 0"
    and "divfix max_amplitude (int2fix15 ATTACK_TIME) = Inr (attack_inc s)"
    and "divfix max_amplitude (int2fix15 DECAY_TIME) = Inr (decay_inc s)"
  shows "(\<forall>n < unat BEEP_DURATION.
            STATE_L (ticks_core_0 n s) = 0 \<and> count_L (ticks_core_0 n s) = of_nat n)
       \<and> (\<forall>n < unat ATTACK_TIME.
            sint (current_amplitude_0 (ticks_core_0 n s))
              \<le> sint (current_amplitude_0 (ticks_core_0 (Suc n) s)))
       \<and> (\<forall>n. unat ATTACK_TIME \<le> n \<and> n \<le> unat (BEEP_DURATION - DECAY_TIME) \<longrightarrow>
            current_amplitude_0 (ticks_core_0 (Suc n) s) = current_amplitude_0 (ticks_core_0 n s))
       \<and> (\<forall>n. unat (BEEP_DURATION - DECAY_TIME) \<le> n \<and> n < unat BEEP_DURATION \<longrightarrow>
            sint (current_amplitude_0 (ticks_core_0 (Suc n) s))
              \<le> sint (current_amplitude_0 (ticks_core_0 n s)))
       \<and> (\<forall>n. unat BEEP_DURATION \<le> n \<and> n < unat BEEP_DURATION + unat BEEP_REPEAT_INTERVAL \<longrightarrow>
            STATE_L (ticks_core_0 n s) = 1)
       \<and> STATE_L (ticks_core_0 (unat BEEP_DURATION + unat BEEP_REPEAT_INTERVAL) s) = 0
       \<and> count_L (ticks_core_0 (unat BEEP_DURATION + unat BEEP_REPEAT_INTERVAL) s) = 0"
proof -
  have inc: "attack_inc s = 10" "decay_inc s = 10"
    using assms(4,5) by (simp_all add: envelope_increments)
  note run = envelope_run [OF assms(1-3) inc]
  note amp = sint_amplitude_run [OF assms(1-3) inc]
  have c1: "\<forall>n < unat BEEP_DURATION.
            STATE_L (ticks_core_0 n s) = 0 \<and> count_L (ticks_core_0 n s) = of_nat n"
    using run(1) by (simp add: macro_values)
  have c2: "\<forall>n < unat ATTACK_TIME.
            sint (current_amplitude_0 (ticks_core_0 n s))
              \<le> sint (current_amplitude_0 (ticks_core_0 (Suc n) s))"
  proof (intro allI impI)
    fix n assume "n < unat ATTACK_TIME"
    then have n: "n < 3000" by (simp add: macro_values)
    then show "sint (current_amplitude_0 (ticks_core_0 n s))
              \<le> sint (current_amplitude_0 (ticks_core_0 (Suc n) s))"
      using amp [of n] amp [of "Suc n"] by (simp add: amplitude_at_Suc del: ticks_core_0.simps)
  qed
  have c3: "\<forall>n. unat ATTACK_TIME \<le> n \<and> n \<le> unat (BEEP_DURATION - DECAY_TIME) \<longrightarrow>
            current_amplitude_0 (ticks_core_0 (Suc n) s) = current_amplitude_0 (ticks_core_0 n s)"
  proof (intro allI impI)
    fix n assume "unat ATTACK_TIME \<le> n \<and> n \<le> unat (BEEP_DURATION - DECAY_TIME)"
    then have n: "3000 \<le> n" "n \<le> 7000" by (simp_all add: macro_values)
    then show "current_amplitude_0 (ticks_core_0 (Suc n) s) = current_amplitude_0 (ticks_core_0 n s)"
      using run(2) [of n] run(2) [of "Suc n"] by (simp add: amplitude_at_Suc del: ticks_core_0.simps)
  qed
  have c4: "\<forall>n. unat (BEEP_DURATION - DECAY_TIME) \<le> n \<and> n < unat BEEP_DURATION \<longrightarrow>
            sint (current_amplitude_0 (ticks_core_0 (Suc n) s))
              \<le> sint (current_amplitude_0 (ticks_core_0 n s))"
  proof (intro allI impI)
    fix n assume "unat (BEEP_DURATION - DECAY_TIME) \<le> n \<and> n < unat BEEP_DURATION"
    then have n: "7000 \<le> n" "n < 10000" by (simp_all add: macro_values)
    then have "amplitude_at (Suc n) \<le> amplitude_at n"
      by (cases "n = 7000") (simp_all add: amplitude_at_Suc amplitude_at_def)
    then show "sint (current_amplitude_0 (ticks_core_0 (Suc n) s))
              \<le> sint (current_amplitude_0 (ticks_core_0 n s))"
      using n amp [of n] amp [of "Suc n"] by (simp del: ticks_core_0.simps)
  qed
  have c5: "\<forall>n. unat BEEP_DURATION \<le> n \<and> n < unat BEEP_DURATION + unat BEEP_REPEAT_INTERVAL \<longrightarrow>
            STATE_L (ticks_core_0 n s) = 1"
    using run(3) by (simp add: macro_values)
  have c6: "STATE_L (ticks_core_0 (unat BEEP_DURATION + unat BEEP_REPEAT_INTERVAL) s) = 0
       \<and> count_L (ticks_core_0 (unat BEEP_DURATION + unat BEEP_REPEAT_INTERVAL) s) = 0"
    using run(4) by (simp add: macro_values del: ticks_core_0.simps)
  from c1 c2 c3 c4 c5 c6 show ?thesis by (intro conjI) simp_all
qed

theorem envelope_shape_and_cycle_witness:
  "STATE_L dds_start = 0 \<and> count_L dds_start = 0 \<and> current_amplitude_0 dds_start = 0
   \<and> divfix max_amplitude (int2fix15 ATTACK_TIME) = Inr (attack_inc dds_start)
   \<and> divfix max_amplitude (int2fix15 DECAY_TIME) = Inr (decay_inc dds_start)
   \<and> sint (current_amplitude_0 (ticks_core_0 5 dds_start))
        \<le> sint (current_amplitude_0 (ticks_core_0 6 dds_start))
   \<and> current_amplitude_0 (ticks_core_0 5001 dds_start) = current_amplitude_0 (ticks_core_0 5000 dds_start)
   \<and> sint (current_amplitude_0 (ticks_core_0 8001 dds_start))
        \<le> sint (current_amplitude_0 (ticks_core_0 8000 dds_start))
   \<and> STATE_L (ticks_core_0 9999 dds_start) = 0
   \<and> STATE_L (ticks_core_0 10000 dds_start) = 1
   \<and> STATE_L (ticks_core_0 49999 dds_start) = 1
   \<and> STATE_L (ticks_core_0 50000 dds_start) = 0
   \<and> count_L (ticks_core_0 50000 dds_start) = 0"
proof -
  have h: "STATE_L dds_start = 0" "count_L dds_start = 0" "current_amplitude_0 dds_start = 0"
    "divfix max_amplitude (int2fix15 ATTACK_TIME) = Inr (attack_inc dds_start)"
    "divfix max_amplitude (int2fix15 DECAY_TIME) = Inr (decay_inc dds_start)"
    by (simp_all add: dds_start_fields envelope_increments)
  note t = envelope_shape_and_cycle [OF h]
  have u: "unat BEEP_DURATION = 10000" "unat ATTACK_TIME = 3000"
    "unat (BEEP_DURATION - DECAY_TIME) = 7000" "unat BEEP_REPEAT_INTERVAL = 40000"
    by (simp_all add: macro_values)
  have a: "sint (current_amplitude_0 (ticks_core_0 5 dds_start))
        \<le> sint (current_amplitude_0 (ticks_core_0 (Suc 5) dds_start))"
    using t [THEN conjunct2, THEN conjunct1, rule_format, of 5]
    by (simp add: u del: ticks_core_0.simps)
  have b: "current_amplitude_0 (ticks_core_0 (Suc 5000) dds_start)
        = current_amplitude_0 (ticks_core_0 5000 dds_start)"
    using t [THEN conjunct2, THEN conjunct2, THEN conjunct1, rule_format, of 5000]
    by (simp add: u del: ticks_core_0.simps)
  have c: "sint (current_amplitude_0 (ticks_core_0 (Suc 8000) dds_start))
        \<le> sint (current_amplitude_0 (ticks_core_0 8000 dds_start))"
    using t [THEN conjunct2, THEN conjunct2, THEN conjunct2, THEN conjunct1, rule_format, of 8000]
    by (simp add: u del: ticks_core_0.simps)
  have d: "STATE_L (ticks_core_0 9999 dds_start) = 0"
    using t [THEN conjunct1, rule_format, of 9999]
    by (simp add: u del: ticks_core_0.simps)
  have e1: "STATE_L (ticks_core_0 10000 dds_start) = 1"
    using t [THEN conjunct2, THEN conjunct2, THEN conjunct2, THEN conjunct2, THEN conjunct1,
        rule_format, of 10000]
    by (simp add: u del: ticks_core_0.simps)
  have e2: "STATE_L (ticks_core_0 49999 dds_start) = 1"
    using t [THEN conjunct2, THEN conjunct2, THEN conjunct2, THEN conjunct2, THEN conjunct1,
        rule_format, of 49999]
    by (simp add: u del: ticks_core_0.simps)
  have f: "STATE_L (ticks_core_0 50000 dds_start) = 0 \<and> count_L (ticks_core_0 50000 dds_start) = 0"
    using t [THEN conjunct2, THEN conjunct2, THEN conjunct2, THEN conjunct2, THEN conjunct2]
    by (simp add: u del: ticks_core_0.simps)
  have s: "Suc 5 = 6" "Suc 5000 = 5001" "Suc 8000 = 8001" by simp_all
  from a b c have abc: "sint (current_amplitude_0 (ticks_core_0 5 dds_start))
        \<le> sint (current_amplitude_0 (ticks_core_0 6 dds_start))"
    "current_amplitude_0 (ticks_core_0 5001 dds_start) = current_amplitude_0 (ticks_core_0 5000 dds_start)"
    "sint (current_amplitude_0 (ticks_core_0 8001 dds_start))
        \<le> sint (current_amplitude_0 (ticks_core_0 8000 dds_start))"
    by (simp_all only: s)
  from h abc d e1 e2 f show ?thesis by (intro conjI) (simp_all only:)
qed

subsection \<open>Frame of a SILENT tick\<close>

text \<open>
  Claim C10. In every state the running system reaches, a tick of either callback that
  finds its envelope SILENT and whose increment does not bring the tick counter to
  \<^verbatim>\<open>BEEP_REPEAT_INTERVAL\<close> changes nothing but that counter, which it increments: the phase
  accumulators, amplitudes, DAC output variables and DAC data words are as before and
  nothing is appended to the words written to the SPI port.
\<close>

theorem silent_tick_only_counts:
  assumes "dds_reachable tbl s"
  shows "(STATE_L s \<noteq> 0 \<and> count_L s + 1 \<noteq> BEEP_REPEAT_INTERVAL \<longrightarrow>
            repeating_timer_callback_core_0 s = s\<lparr>count_L := count_L s + 1\<rparr>)
       \<and> (STATE_R s \<noteq> 0 \<and> count_R s + 1 \<noteq> BEEP_REPEAT_INTERVAL \<longrightarrow>
            repeating_timer_callback_core_1 s = s\<lparr>count_R := count_R s + 1\<rparr>)"
proof -
  have c: "corenum_0 s = 0" "corenum_1 s = 1 \<or> STATE_R s = 0"
    using reachable_corenum [OF assms] by simp_all
  have "s\<lparr>count_L := count_L s + 1, corenum_0 := corenum_0 s\<rparr> = s\<lparr>count_L := count_L s + 1\<rparr>"
    by simp
  then have l: "STATE_L s \<noteq> 0 \<and> count_L s + 1 \<noteq> BEEP_REPEAT_INTERVAL \<longrightarrow>
            repeating_timer_callback_core_0 s = s\<lparr>count_L := count_L s + 1\<rparr>"
    using c(1) by (simp add: repeating_timer_callback_core_0_def Let_def)
  have "s\<lparr>count_R := count_R s + 1, corenum_1 := corenum_1 s\<rparr> = s\<lparr>count_R := count_R s + 1\<rparr>"
    by simp
  then have r: "STATE_R s \<noteq> 0 \<and> count_R s + 1 \<noteq> BEEP_REPEAT_INTERVAL \<longrightarrow>
            repeating_timer_callback_core_1 s = s\<lparr>count_R := count_R s + 1\<rparr>"
  proof (cases "STATE_R s = 0")
    case True
    then show ?thesis by simp
  next
    case False
    with c(2) have "corenum_1 s = 1" by simp
    then have "s\<lparr>count_R := count_R s + 1, corenum_1 := 1\<rparr> = s\<lparr>count_R := count_R s + 1\<rparr>"
      by (metis \<open>s\<lparr>count_R := count_R s + 1, corenum_1 := corenum_1 s\<rparr> = s\<lparr>count_R := count_R s + 1\<rparr>\<close>)
    then show ?thesis
      using False by (simp add: repeating_timer_callback_core_1_def Let_def)
  qed
  from l r show ?thesis by simp
qed

theorem silent_tick_only_counts_witness:
  "dds_reachable flat_table (ticks_core_0 10000 dds_start)
   \<and> STATE_L (ticks_core_0 10000 dds_start) \<noteq> 0
   \<and> count_L (ticks_core_0 10000 dds_start) + 1 \<noteq> BEEP_REPEAT_INTERVAL
   \<and> repeating_timer_callback_core_0 (ticks_core_0 10000 dds_start)
       = (ticks_core_0 10000 dds_start)\<lparr>count_L := 1\<rparr>
   \<and> dds_reachable flat_table (ticks_core_1 10000 dds_start)
   \<and> STATE_R (ticks_core_1 10000 dds_start) \<noteq> 0
   \<and> count_R (ticks_core_1 10000 dds_start) + 1 \<noteq> BEEP_REPEAT_INTERVAL
   \<and> repeating_timer_callback_core_1 (ticks_core_1 10000 dds_start)
       = (ticks_core_1 10000 dds_start)\<lparr>count_R := 1\<rparr>"
proof -
  have l: "STATE_L (ticks_core_0 10000 dds_start) = 1
      \<and> count_L (ticks_core_0 10000 dds_start) = of_nat (10000 - 10000)
      \<and> current_amplitude_0 (ticks_core_0 10000 dds_start) = 10"
    by (rule envelope_run(3)) (simp_all add: dds_start_fields)
  have r: "STATE_R (ticks_core_1 10000 dds_start) = 1
      \<and> count_R (ticks_core_1 10000 dds_start) = of_nat (10000 - 10000)
      \<and> current_amplitude_1 (ticks_core_1 10000 dds_start) = 10"
    by (rule envelope_run_core_1(3)) (simp_all add: dds_start_fields)
  have rl: "dds_reachable flat_table (ticks_core_0 10000 dds_start)"
    by (rule ticks_core_0_reachable [OF dds_start_reachable])
  have rr: "dds_reachable flat_table (ticks_core_1 10000 dds_start)"
    by (rule ticks_core_1_reachable [OF dds_start_reachable])
  show ?thesis
    using l r rl rr silent_tick_only_counts [OF rl] silent_tick_only_counts [OF rr]
    by (simp add: macro_values del: ticks_core_0.simps ticks_core_1.simps)
qed

section \<open>Properties of the bit-reversal phase\<close>

lemma bit_double_16:
  "bit (m * 2 :: 16 word) n \<longleftrightarrow> 0 < n \<and> n < 16 \<and> bit m (n - 1)"
  using bit_push_bit_iff [of 1 m n] by (auto simp add: bit_simps)

lemma reverse_bits_16_positions:
  "list_all (\<lambda>i. bit (reverse_bits_16 m) i \<longleftrightarrow> bit m (15 - i)) [0..<16]"
proof -
  define mirrored where "mirrored i \<longleftrightarrow> (bit (reverse_bits_16 m) i \<longleftrightarrow> bit m (15 - i))" for i
  have "list_all mirrored [0..<16]"
    by (simp add: upt_conv_Cons)
      (simp add: mirrored_def reverse_bits_16_def Let_def bit_simps bit_double_16)
  then show ?thesis
    by (simp only: mirrored_def [abs_def])
qed

lemma bit_reverse_bits_16:
  "bit (reverse_bits_16 m) i \<longleftrightarrow> i < 16 \<and> bit m (15 - i)"
proof (cases "i < 16")
  case True
  then have "i \<in> set [0..<16]" by simp
  then show ?thesis
    using reverse_bits_16_positions [of m] True by (simp only: list_all_iff) blast
next
  case False
  then have "\<not> bit (reverse_bits_16 m) i"
    using bit_imp_le_length [of "reverse_bits_16 m" i] by auto
  with False show ?thesis by simp
qed

lemma bit_bit_reversed_1024:
  "bit (bit_reversed SHIFT_AMOUNT m) i \<longleftrightarrow> i < 10 \<and> bit m (9 - i)"
proof -
  have "bit (bit_reversed SHIFT_AMOUNT m) i \<longleftrightarrow> 6 + i < 16 \<and> bit m (15 - (6 + i))"
    by (simp add: bit_reversed_def SHIFT_AMOUNT_def bit_simps bit_reverse_bits_16)
  moreover have "15 - (6 + i) = 9 - i" by simp
  moreover have "6 + i < 16 \<longleftrightarrow> i < 10" by auto
  ultimately show ?thesis by simp
qed

lemma bit_reversed_1024_less: "bit_reversed SHIFT_AMOUNT m < 1024"
proof -
  have "bit_reversed SHIFT_AMOUNT m AND mask 10 = bit_reversed SHIFT_AMOUNT m"
    by (rule bit_word_eqI) (auto simp add: bit_simps bit_bit_reversed_1024)
  moreover have "bit_reversed SHIFT_AMOUNT m AND mask 10 < 2 ^ 10"
    by (rule and_mask_less') simp
  ultimately have "bit_reversed SHIFT_AMOUNT m < 2 ^ 10" by simp
  then show ?thesis by simp
qed

lemma bit_reversal_loop_fold:
  assumes "unat nm1 = n" "k \<le> n"
  shows "bit_reversal_loop nm1 shift (of_nat k) st
         = fold (bit_reversal_body shift) (map of_nat [k..<n]) st"
  using assms(2)
proof (induction "n - k" arbitrary: k st)
  case 0
  then have "k = n" by simp
  then have "(of_nat k :: 16 word) = nm1" using assms(1) by auto
  then show ?case using \<open>k = n\<close> by (simp add: bit_reversal_loop.simps)
next
  case (Suc d)
  then have k: "k < n" by simp
  have "n < 2 ^ 16"
    using unsigned_less [of nm1, where 'a = nat] assms(1) by simp
  then have "unat (of_nat k :: 16 word) = k"
    using k by (simp add: unat_of_nat)
  then have less: "(of_nat k :: 16 word) < nm1"
    using k assms(1) by (simp add: word_less_nat_alt)
  have "bit_reversal_loop nm1 shift (of_nat k) st
        = bit_reversal_loop nm1 shift (of_nat (Suc k)) (bit_reversal_body shift (of_nat k) st)"
    using less by (simp add: bit_reversal_loop.simps [of nm1 shift "of_nat k"] add.commute)
  also have "\<dots> = fold (bit_reversal_body shift) (map of_nat [Suc k..<n])
                     (bit_reversal_body shift (of_nat k) st)"
    using Suc.hyps(2) k by (intro Suc.hyps(1)) simp_all
  also have "\<dots> = fold (bit_reversal_body shift) (map of_nat [k..<n]) st"
    using k by (simp add: upt_conv_Cons)
  finally show ?case .
qed

lemma FFTfix_bit_reversal_fold:
  "FFTfix_bit_reversal st = fold (bit_reversal_body SHIFT_AMOUNT) (map of_nat [1..<1023]) st"
proof -
  have "bit_reversal_loop NUM_SAMPLES_M_1 SHIFT_AMOUNT (of_nat 1) st
        = fold (bit_reversal_body SHIFT_AMOUNT) (map of_nat [1..<1023]) st"
    by (rule bit_reversal_loop_fold) (simp_all add: NUM_SAMPLES_M_1_def)
  then show ?thesis by (simp add: FFTfix_bit_reversal_def)
qed

text \<open>
  Claim C5. In the bit-reversal phase of \<^verbatim>\<open>FFTfix\<close>, (1) the index \<open>mr\<close> computed for
  \<open>m\<close> is the reversal of the low \<open>log2 N = 10\<close> bits of \<open>m\<close>: bit \<open>i\<close> of \<open>mr\<close> is
  bit \<open>9 - i\<close> of \<open>m\<close> for \<open>i < 10\<close>, and no higher bit is set; (2) the loop runs its
  body once for every \<open>m\<close> from 1 to \<open>N - 2\<close>, in this order, and for no other index;
  (3) the body exchanges the entries at \<open>m\<close> and \<open>mr\<close> of both arrays exactly when
  \<open>mr > m\<close> and otherwise leaves both arrays as they are; (4) compiled at \<open>N = 8\<close>
  (\<^verbatim>\<open>NUM_SAMPLES_M_1\<close> 7, \<^verbatim>\<open>SHIFT_AMOUNT\<close> 13), the phase turns the arrangement
  0, 1, ..., 7 into 0, 4, 2, 6, 1, 5, 3, 7.
\<close>

theorem bit_reversal_phase:
  "(bit (bit_reversed SHIFT_AMOUNT m) i
      \<longleftrightarrow> i < LOG2_NUM_SAMPLES \<and> bit m (LOG2_NUM_SAMPLES - 1 - i))
   \<and> FFTfix_bit_reversal st
       = fold (bit_reversal_body SHIFT_AMOUNT) (map of_nat [1 ..< NUM_SAMPLES - 1]) st
   \<and> bit_reversal_body SHIFT_AMOUNT m (re, im)
       = (if m < bit_reversed SHIFT_AMOUNT m
          then (re[unat m := re ! unat (bit_reversed SHIFT_AMOUNT m),
                   unat (bit_reversed SHIFT_AMOUNT m) := re ! unat m],
                im[unat m := im ! unat (bit_reversed SHIFT_AMOUNT m),
                   unat (bit_reversed SHIFT_AMOUNT m) := im ! unat m])
          else (re, im))
   \<and> bit_reversal_loop 7 13 1 ([0, 1, 2, 3, 4, 5, 6, 7], [0, 1, 2, 3, 4, 5, 6, 7])
       = ([0, 4, 2, 6, 1, 5, 3, 7], [0, 4, 2, 6, 1, 5, 3, 7])"
proof -
  have a: "bit (bit_reversed SHIFT_AMOUNT m) i
      \<longleftrightarrow> i < LOG2_NUM_SAMPLES \<and> bit m (LOG2_NUM_SAMPLES - 1 - i)"
    by (simp add: bit_bit_reversed_1024 LOG2_NUM_SAMPLES_def)
  have b: "FFTfix_bit_reversal st
       = fold (bit_reversal_body SHIFT_AMOUNT) (map of_nat [1 ..< NUM_SAMPLES - 1]) st"
    by (simp add: FFTfix_bit_reversal_fold NUM_SAMPLES_def)
  have c: "bit_reversal_body SHIFT_AMOUNT m (re, im)
       = (if m < bit_reversed SHIFT_AMOUNT m
          then (re[unat m := re ! unat (bit_reversed SHIFT_AMOUNT m),
                   unat (bit_reversed SHIFT_AMOUNT m) := re ! unat m],
                im[unat m := im ! unat (bit_reversed SHIFT_AMOUNT m),
                   unat (bit_reversed SHIFT_AMOUNT m) := im ! unat m])
          else (re, im))"
  proof (cases "m < bit_reversed SHIFT_AMOUNT m")
    case True
    then have "\<not> bit_reversed SHIFT_AMOUNT m \<le> m" by (simp add: not_le)
    with True show ?thesis by (simp add: bit_reversal_body_def Let_def)
  next
    case False
    then have "bit_reversed SHIFT_AMOUNT m \<le> m" by (simp add: not_less)
    with False show ?thesis by (simp add: bit_reversal_body_def Let_def)
  qed
  have d: "bit_reversal_loop 7 13 1 ([0, 1, 2, 3, 4, 5, 6, 7], [0, 1, 2, 3, 4, 5, 6, 7])
       = ([0, 4, 2, 6, 1, 5, 3, 7], [0, 4, 2, 6, 1, 5, 3, 7])"
    by (simp add: bit_reversal_loop.simps bit_reversal_body_def bit_reversed_def
        reverse_bits_16_def Let_def word_le_nat_alt word_less_nat_alt)
  from a b c d show ?thesis by (intro conjI)
qed

section \<open>Properties of the magnitude pass and the peak search\<close>

lemma magnitude_loop_fold:
  "i \<le> n \<Longrightarrow> magnitude_loop n i s = fold magnitude_body [i..<n] s"
proof (induction "n - i" arbitrary: i s)
  case 0
  then show ?case by (simp add: magnitude_loop.simps)
next
  case (Suc d)
  then have less: "i < n" by simp
  have "magnitude_loop n i s = magnitude_loop n (Suc i) (magnitude_body i s)"
    using less by (simp add: magnitude_loop.simps [of n i])
  also have "\<dots> = fold magnitude_body [Suc i..<n] (magnitude_body i s)"
    using Suc.hyps(2) less by (intro Suc.hyps(1)) simp_all
  also have "\<dots> = fold magnitude_body [i..<n] s"
    using less by (simp add: upt_conv_Cons)
  finally show ?case .
qed

lemma magnitude_body_fields:
  assumes "i < length (fr s)" "i < length (fi s)"
  shows "fr (magnitude_body i s) = (fr s)[i := magnitude (fr s ! i) (fi s ! i)]"
    and "fi (magnitude_body i s) = (fi s)[i := abs_int (fi s ! i)]"
    and "max_fr (magnitude_body i s) =
           (if max_fr s <s magnitude (fr s ! i) (fi s ! i) \<and> 4 < i
            then magnitude (fr s ! i) (fi s ! i) else max_fr s)"
    and "max_fr_dex (magnitude_body i s) =
           (if max_fr s <s magnitude (fr s ! i) (fi s ! i) \<and> 4 < i then i else max_fr_dex s)"
  using assms by (simp_all add: magnitude_body_def Let_def magnitude_def)

lemma peak_so_far_start:
  "peak_so_far re im 0 \<lparr>fr = re, fi = im, max_fr = 0, max_fr_dex = 0\<rparr>"
  by (simp add: peak_so_far_def)

lemma peak_so_far_step:
  assumes inv: "peak_so_far re im k s" and k: "k < length re" "k < length im"
  shows "peak_so_far re im (Suc k) (magnitude_body k s)"
proof -
  let ?m = "magnitude (re ! k) (im ! k)"
  let ?s = "magnitude_body k s"
  from inv have len: "length (fr s) = length re" "length (fi s) = length im"
    and frs: "\<forall>j < length re. fr s ! j = (if j < k then magnitude (re ! j) (im ! j) else re ! j)"
    and fis: "\<forall>j < length im. fi s ! j = (if j < k then abs_int (im ! j) else im ! j)"
    by (simp_all add: peak_so_far_def)
  have cur: "fr s ! k = re ! k" "fi s ! k = im ! k"
    using frs fis k by simp_all
  have kk: "k < length (fr s)" "k < length (fi s)" using len k by simp_all
  note f = magnitude_body_fields [OF kk, unfolded cur]
  have l1: "length (fr ?s) = length re" "length (fi ?s) = length im"
    using len by (simp_all add: f)
  have a: "\<forall>j < length re. fr ?s ! j = (if j < Suc k then magnitude (re ! j) (im ! j) else re ! j)"
    using frs len by (auto simp add: f nth_list_update less_Suc_eq)
  have b: "\<forall>j < length im. fi ?s ! j = (if j < Suc k then abs_int (im ! j) else im ! j)"
    using fis len by (auto simp add: f nth_list_update less_Suc_eq)
  let ?M = "\<lambda>j. sint (magnitude (re ! j) (im ! j))"
  let ?E = "\<lambda>k. \<exists>j. 4 < j \<and> j < k \<and> 0 < ?M j"
  from inv have peak:
    "if ?E k
     then 4 < max_fr_dex s \<and> max_fr_dex s < k
          \<and> max_fr s = magnitude (re ! max_fr_dex s) (im ! max_fr_dex s)
          \<and> 0 < sint (max_fr s)
          \<and> (\<forall>j. 4 < j \<and> j < k \<longrightarrow> ?M j \<le> sint (max_fr s))
          \<and> (\<forall>j. 4 < j \<and> j < max_fr_dex s \<longrightarrow> ?M j < sint (max_fr s))
     else max_fr_dex s = 0 \<and> max_fr s = 0"
    unfolding peak_so_far_def by (elim conjE)
  have found: "4 < max_fr_dex s \<and> max_fr_dex s < k
          \<and> max_fr s = magnitude (re ! max_fr_dex s) (im ! max_fr_dex s)
          \<and> 0 < sint (max_fr s)
          \<and> (\<forall>j. 4 < j \<and> j < k \<longrightarrow> ?M j \<le> sint (max_fr s))
          \<and> (\<forall>j. 4 < j \<and> j < max_fr_dex s \<longrightarrow> ?M j < sint (max_fr s))" if "?E k"
    using peak unfolding if_P [OF that] .
  have none: "max_fr_dex s = 0 \<and> max_fr s = 0" if "\<not> ?E k"
    using peak unfolding if_not_P [OF that] .
  have upper: "\<forall>j. 4 < j \<and> j < k \<longrightarrow> ?M j \<le> sint (max_fr s)"
  proof (cases "?E k")
    case True
    then show ?thesis using found by blast
  next
    case False
    then have "sint (max_fr s) = 0" using none by simp
    with False show ?thesis by (metis not_le)
  qed
  have nonneg: "0 \<le> sint (max_fr s)"
  proof (cases "?E k")
    case True
    then have "0 < sint (max_fr s)" using found by blast
    then show ?thesis by simp
  next
    case False
    then show ?thesis using none by simp
  qed
  have goal:
    "if ?E (Suc k)
     then 4 < max_fr_dex ?s \<and> max_fr_dex ?s < Suc k
          \<and> max_fr ?s = magnitude (re ! max_fr_dex ?s) (im ! max_fr_dex ?s)
          \<and> 0 < sint (max_fr ?s)
          \<and> (\<forall>j. 4 < j \<and> j < Suc k \<longrightarrow> ?M j \<le> sint (max_fr ?s))
          \<and> (\<forall>j. 4 < j \<and> j < max_fr_dex ?s \<longrightarrow> ?M j < sint (max_fr ?s))
     else max_fr_dex ?s = 0 \<and> max_fr ?s = 0"
  proof (cases "sint (max_fr s) < ?M k \<and> 4 < k")
    case True
    then have new: "max_fr ?s = ?m" "max_fr_dex ?s = k"
      by (simp_all add: f word_sless_alt)
    have pos: "0 < ?M k" using True nonneg by simp
    then have e: "?E (Suc k)" using True by blast
    have u: "\<forall>j. 4 < j \<and> j < Suc k \<longrightarrow> ?M j \<le> ?M k"
      using upper True by (auto simp add: less_Suc_eq)
    have v: "\<forall>j. 4 < j \<and> j < k \<longrightarrow> ?M j < ?M k"
      using upper True by fastforce
    show ?thesis
      unfolding if_P [OF e] new using True pos u v by auto
  next
    case False
    then have old: "max_fr ?s = max_fr s" "max_fr_dex ?s = max_fr_dex s"
      by (auto simp add: f word_sless_alt)
    show ?thesis
    proof (cases "?E k")
      case True
      then have e: "?E (Suc k)" by (meson less_Suc_eq)
      have "\<forall>j. 4 < j \<and> j < Suc k \<longrightarrow> ?M j \<le> sint (max_fr s)"
        using upper False by (auto simp add: less_Suc_eq)
      then show ?thesis
        unfolding if_P [OF e] old using found [OF True] by auto
    next
      case nE: False
      with none have z: "max_fr_dex s = 0" "max_fr s = 0" by simp_all
      have "\<not> ?E (Suc k)"
      proof
        assume "?E (Suc k)"
        then obtain j where j: "4 < j" "j < Suc k" "0 < ?M j" by blast
        show False
        proof (cases "j = k")
          case True
          with j False z show False by simp
        next
          case False
          with j have "j < k" by simp
          with j nE show False by blast
        qed
      qed
      then show ?thesis
        unfolding old using z by simp
    qed
  qed
  show ?thesis
    unfolding peak_so_far_def using l1 a b goal by (intro conjI)
qed

lemma peak_so_far_fold:
  assumes "k \<le> length re" "k \<le> length im"
  shows "peak_so_far re im k
           (fold magnitude_body [0..<k] \<lparr>fr = re, fi = im, max_fr = 0, max_fr_dex = 0\<rparr>)"
  using assms
proof (induction k)
  case 0
  then show ?case by (simp add: peak_so_far_start)
next
  case (Suc k)
  then show ?case by (simp add: peak_so_far_step)
qed

lemma peak_search_invariant:
  assumes "length re = NUM_SAMPLES" "length im = NUM_SAMPLES"
  shows "peak_so_far re im 512 (peak_search re im)"
proof -
  have "peak_search re im
        = fold magnitude_body [0..<512] \<lparr>fr = re, fi = im, max_fr = 0, max_fr_dex = 0\<rparr>"
    by (simp add: peak_search_def NUM_SAMPLES_def magnitude_loop_fold drop_bit_eq_div)
  moreover have "512 \<le> length re" "512 \<le> length im"
    using assms by (simp_all add: NUM_SAMPLES_def)
  ultimately show ?thesis by (simp only: peak_so_far_fold)
qed


lemma magnitude_values: "magnitude 0 0 = 0" "magnitude 32768 0 = 32768"
  by (simp_all add: magnitude_def abs_int_def max_macro_def min_macro_def multfix15_def
      zero_point_4_def word_sless_alt)

lemma test_spectra:
  "length flat_bins = NUM_SAMPLES" "length tone_in_bin_4 = NUM_SAMPLES"
  "length tone_in_bin_7 = NUM_SAMPLES"
  "j < 1024 \<Longrightarrow> flat_bins ! j = 0"
  "j < 1024 \<Longrightarrow> tone_in_bin_4 ! j = (if j = 4 then 32768 else 0)"
  "j < 1024 \<Longrightarrow> tone_in_bin_7 ! j = (if j = 7 then 32768 else 0)"
  by (simp_all add: flat_bins_def tone_in_bin_4_def tone_in_bin_7_def NUM_SAMPLES_def
      nth_list_update)

text \<open>
  Claim C4 fails on the source: the test \<^verbatim>\<open>i>4\<close> excludes the bins 0 to 4, five bins and
  not four. On a spectrum whose only non-zero entry is a real part of 1.0 in bin 4, the
  loop stores the magnitude 1.0 (raw 32768) for bin 4, the largest magnitude outside the
  lowest four bins, and yet leaves \<^verbatim>\<open>max_fr\<close> at 0 and \<^verbatim>\<open>max_fr_dex\<close> at 0.
\<close>

theorem peak_search_skips_bin_4:
  "fr (peak_search tone_in_bin_4 flat_bins) ! 4 = 32768
   \<and> max_fr (peak_search tone_in_bin_4 flat_bins) = 0
   \<and> max_fr_dex (peak_search tone_in_bin_4 flat_bins) = 0"
proof -
  let ?r = "peak_search tone_in_bin_4 flat_bins"
  have inv: "peak_so_far tone_in_bin_4 flat_bins 512 ?r"
    by (rule peak_search_invariant) (simp_all add: test_spectra)
  have none: "\<not> (\<exists>j. 4 < j \<and> j < 512
      \<and> 0 < sint (magnitude (tone_in_bin_4 ! j) (flat_bins ! j)))"
    by (auto simp add: test_spectra magnitude_values)
  have "fr ?r ! 4 = magnitude (tone_in_bin_4 ! 4) (flat_bins ! 4)"
    using inv by (simp add: peak_so_far_def test_spectra NUM_SAMPLES_def)
  then have a: "fr ?r ! 4 = 32768"
    by (simp add: test_spectra magnitude_values)
  have "max_fr_dex ?r = 0 \<and> max_fr ?r = 0"
    using inv unfolding peak_so_far_def if_not_P [OF none] by (elim conjE) (intro conjI)
  with a show ?thesis by simp
qed

text \<open>
  Claim C4, amended. For every transformed spectrum (two arrays of \<^verbatim>\<open>NUM_SAMPLES\<close> entries),
  the peak search stores in \<^verbatim>\<open>fr[i]\<close>, for each of the first \<open>N/2\<close> bins, the approximate
  magnitude \<open>max(|re|,|im|) + multfix15(min(|re|,|im|), zero_point_4)\<close> (fixed point, wrapping;
  \<^verbatim>\<open>zero_point_4\<close> is 0.4 as \<open>13107 / 32768\<close>). The lowest five bins, 0 to 4, are excluded from
  the search: if some bin \<open>i\<close> with \<open>4 < i < N/2\<close> has a positive magnitude, \<^verbatim>\<open>max_fr_dex\<close> is
  the first index in that range that holds the largest magnitude of the range and \<^verbatim>\<open>max_fr\<close>
  is that magnitude; otherwise \<^verbatim>\<open>max_fr_dex\<close> and \<^verbatim>\<open>max_fr\<close> stay 0.
\<close>

theorem peak_search_result:
  assumes "length re = NUM_SAMPLES" "length im = NUM_SAMPLES"
  shows "(\<forall>i < NUM_SAMPLES div 2. fr (peak_search re im) ! i = magnitude (re ! i) (im ! i))
       \<and> (if \<exists>i. 4 < i \<and> i < NUM_SAMPLES div 2 \<and> 0 < sint (magnitude (re ! i) (im ! i))
          then 4 < max_fr_dex (peak_search re im)
               \<and> max_fr_dex (peak_search re im) < NUM_SAMPLES div 2
               \<and> max_fr (peak_search re im)
                   = magnitude (re ! max_fr_dex (peak_search re im))
                       (im ! max_fr_dex (peak_search re im))
               \<and> (\<forall>i. 4 < i \<and> i < NUM_SAMPLES div 2 \<longrightarrow>
                     sint (magnitude (re ! i) (im ! i)) \<le> sint (max_fr (peak_search re im)))
               \<and> (\<forall>i. 4 < i \<and> i < max_fr_dex (peak_search re im) \<longrightarrow>
                     sint (magnitude (re ! i) (im ! i)) < sint (max_fr (peak_search re im)))
          else max_fr_dex (peak_search re im) = 0 \<and> max_fr (peak_search re im) = 0)"
proof -
  have half: "NUM_SAMPLES div 2 = 512" by (simp add: NUM_SAMPLES_def)
  have inv: "peak_so_far re im 512 (peak_search re im)"
    using assms by (rule peak_search_invariant)
  have a: "\<forall>i < 512. fr (peak_search re im) ! i = magnitude (re ! i) (im ! i)"
    using inv assms(1) by (simp add: peak_so_far_def NUM_SAMPLES_def)
  show ?thesis
  proof (cases "\<exists>i. 4 < i \<and> i < 512 \<and> 0 < sint (magnitude (re ! i) (im ! i))")
    case True
    show ?thesis
      unfolding half if_P [OF True]
      using a inv unfolding peak_so_far_def if_P [OF True] by blast
  next
    case False
    show ?thesis
      unfolding half if_not_P [OF False]
      using a inv unfolding peak_so_far_def if_not_P [OF False] by blast
  qed
qed

theorem peak_search_result_witness:
  "length tone_in_bin_7 = NUM_SAMPLES \<and> length flat_bins = NUM_SAMPLES
   \<and> fr (peak_search tone_in_bin_7 flat_bins) ! 7 = 32768
   \<and> max_fr_dex (peak_search tone_in_bin_7 flat_bins) = 7
   \<and> max_fr (peak_search tone_in_bin_7 flat_bins) = 32768"
proof -
  let ?r = "peak_search tone_in_bin_7 flat_bins"
  let ?d = "max_fr_dex ?r"
  have len: "length tone_in_bin_7 = NUM_SAMPLES" "length flat_bins = NUM_SAMPLES"
    by (simp_all add: test_spectra)
  have half: "NUM_SAMPLES div 2 = 512" by (simp add: NUM_SAMPLES_def)
  have ex: "\<exists>i. 4 < i \<and> i < 512
      \<and> 0 < sint (magnitude (tone_in_bin_7 ! i) (flat_bins ! i))"
    by (rule exI [of _ 7]) (simp add: test_spectra magnitude_values)
  note t = peak_search_result [OF len, unfolded half, unfolded if_P [OF ex]]
  have "\<forall>i<512. fr ?r ! i = magnitude (tone_in_bin_7 ! i) (flat_bins ! i)"
    using t by (rule conjunct1)
  then have bins: "fr ?r ! 7 = magnitude (tone_in_bin_7 ! 7) (flat_bins ! 7)"
    by simp
  note p = t [THEN conjunct2]
  have d: "4 < ?d \<and> ?d < 512"
    using p by (elim conjE) (intro conjI)
  have m: "max_fr ?r = magnitude (tone_in_bin_7 ! ?d) (flat_bins ! ?d)"
    using p by (elim conjE)
  have "\<forall>i. 4 < i \<and> i < 512 \<longrightarrow>
          sint (magnitude (tone_in_bin_7 ! i) (flat_bins ! i)) \<le> sint (max_fr ?r)"
    using p by (elim conjE)
  then have u: "sint (magnitude (tone_in_bin_7 ! 7) (flat_bins ! 7)) \<le> sint (max_fr ?r)"
    by simp
  have "?d = 7"
  proof (rule ccontr)
    assume "?d \<noteq> 7"
    moreover have "?d < 1024" using d by simp
    ultimately have "max_fr ?r = 0" using m by (simp add: test_spectra magnitude_values)
    with u show False by (simp add: test_spectra magnitude_values)
  qed
  then show ?thesis
    using len bins m by (simp add: test_spectra magnitude_values)
qed

section \<open>Properties of the ping-pong handshake\<close>

lemma position_start: "position 0 At_wait handshake_start"
  by (simp add: position_def handshake_start_def PT_SEM_SAFE_INIT_def)

lemma position_fft:
  assumes "position b l s"
  shows "fire Fft_counted s = Some s' \<Longrightarrow> position b l s'"
    and "fire (Fft_peak v) s = Some s' \<Longrightarrow> position b l s'"
  using assms by (auto simp add: fire_def position_def split: if_splits)

lemma position_heartbeat_0:
  assumes "position b l s" "fire Heartbeat_0 s = Some s'"
  shows "even b \<and> position (if l = At_signal then Suc b else b) (following l) s'"
proof (cases "even b")
  case False
  then have "pt_core_0 s = At_wait" "core_0_go s = 0"
    using assms(1) by (simp_all add: position_def)
  then have "fire Heartbeat_0 s = None"
    by (simp add: fire_def protothread_core_0_def PT_SEM_SAFE_WAIT_def)
  with assms(2) show ?thesis by simp
next
  case True
  show ?thesis
  proof (cases l)
    case At_wait
    then show ?thesis
      using assms True
      by (auto simp add: position_def fire_def protothread_core_0_def PT_SEM_SAFE_WAIT_def)
  next
    case At_load
    then show ?thesis
      using assms True
      by (auto simp add: position_def fire_def protothread_core_0_def)
  next
    case At_store
    then show ?thesis
      using assms True
      by (auto simp add: position_def fire_def protothread_core_0_def)
  next
    case At_printf
    then show ?thesis
      using assms True
      by (auto simp add: position_def fire_def protothread_core_0_def nth_append less_Suc_eq)
  next
    case At_reset
    then show ?thesis
      using assms True
      by (auto simp add: position_def fire_def protothread_core_0_def)
  next
    case At_yield
    then show ?thesis
      using assms True
      by (auto simp add: position_def fire_def protothread_core_0_def)
  next
    case At_signal
    then show ?thesis
      using assms True
      by (auto simp add: position_def fire_def protothread_core_0_def PT_SEM_SAFE_SIGNAL_def)
  qed
qed
lemma position_heartbeat_1:
  assumes "position b l s" "fire Heartbeat_1 s = Some s'"
  shows "odd b \<and> position (if l = At_signal then Suc b else b) (following l) s'"
proof (cases "even b")
  case True
  then have "pt_core_1 s = At_wait" "core_1_go s = 0"
    using assms(1) by (simp_all add: position_def)
  then have "fire Heartbeat_1 s = None"
    by (simp add: fire_def protothread_core_1_def PT_SEM_SAFE_WAIT_def)
  with assms(2) show ?thesis by simp
next
  case False
  show ?thesis
  proof (cases l)
    case At_wait
    then show ?thesis
      using assms False
      by (auto simp add: position_def fire_def protothread_core_1_def PT_SEM_SAFE_WAIT_def)
  next
    case At_load
    then show ?thesis
      using assms False
      by (auto simp add: position_def fire_def protothread_core_1_def)
  next
    case At_store
    then show ?thesis
      using assms False
      by (auto simp add: position_def fire_def protothread_core_1_def)
  next
    case At_printf
    then show ?thesis
      using assms False
      by (auto simp add: position_def fire_def protothread_core_1_def nth_append less_Suc_eq
          odd_iff_mod_2_eq_one)
  next
    case At_reset
    then show ?thesis
      using assms False
      by (auto simp add: position_def fire_def protothread_core_1_def)
  next
    case At_yield
    then show ?thesis
      using assms False
      by (auto simp add: position_def fire_def protothread_core_1_def)
  next
    case At_signal
    then show ?thesis
      using assms False
      by (auto simp add: position_def fire_def protothread_core_1_def PT_SEM_SAFE_SIGNAL_def)
  qed
qed

lemma bodies_before_following:
  "bodies_before (if l = At_signal then Suc b else b) (following l)
     = bodies_before b l @ [(b mod 2, l)]"
  by (cases l) (simp_all add: bodies_before_def body_order_def)

lemma position_turn:
  assumes "position b l s"
  shows "even b \<Longrightarrow> pt_core_0 s = l" and "odd b \<Longrightarrow> pt_core_1 s = l"
  using assms by (simp_all add: position_def)

lemma fire_position:
  assumes "position b l s" "fire e s = Some s'"
  shows "\<exists>b' l'. position b' l' s' \<and> bodies_before b' l' = bodies_before b l @ statement e s"
proof (cases e)
  case Heartbeat_0
  with assms have p: "even b" "position (if l = At_signal then Suc b else b) (following l) s'"
    using position_heartbeat_0 [of b l s s'] by simp_all
  have "statement e s = [(b mod 2, l)]"
    using Heartbeat_0 p(1) position_turn(1) [OF assms(1)] by (simp add: statement_def)
  then show ?thesis
    using p(2) bodies_before_following [of l b] by metis
next
  case Heartbeat_1
  with assms have p: "odd b" "position (if l = At_signal then Suc b else b) (following l) s'"
    using position_heartbeat_1 [of b l s s'] by simp_all
  have "statement e s = [(b mod 2, l)]"
    using Heartbeat_1 p(1) position_turn(2) [OF assms(1)] by (simp add: statement_def odd_iff_mod_2_eq_one)
  then show ?thesis
    using p(2) bodies_before_following [of l b] by metis
next
  case Fft_counted
  then have "position b l s'" "statement e s = []"
    using assms position_fft(1) [of b l s s'] by (simp_all add: statement_def)
  then show ?thesis by auto
next
  case (Fft_peak v)
  then have "position b l s'" "statement e s = []"
    using assms position_fft(2) [of b l s v s'] by (simp_all add: statement_def)
  then show ?thesis by auto
qed

lemma run_position:
  assumes "position b l s" "run evs s = Some t"
  shows "\<exists>b' l'. position b' l' t \<and> bodies_before b' l' = bodies_before b l @ executed evs s"
  using assms
proof (induction evs arbitrary: b l s)
  case Nil
  then show ?case by auto
next
  case (Cons e evs)
  from Cons.prems(2) obtain s' where s': "fire e s = Some s'" "run evs s' = Some t"
    by (auto split: option.splits)
  from fire_position [OF Cons.prems(1) s'(1)] obtain b1 l1 where
    p1: "position b1 l1 s'" "bodies_before b1 l1 = bodies_before b l @ statement e s"
    by blast
  from Cons.IH [OF p1(1) s'(2)] obtain b2 l2 where
    p2: "position b2 l2 t" "bodies_before b2 l2 = bodies_before b1 l1 @ executed evs s'"
    by blast
  have "bodies_before b2 l2 = bodies_before b l @ executed (e # evs) s"
    using p1(2) p2(2) s'(1) by simp
  with p2(1) show ?case by blast
qed

lemma bodies_before_start: "bodies_before 0 At_wait = []"
  by (simp add: bodies_before_def body_order_def)

lemma count_bodies_before:
  "increments (bodies_before b l) = b + stored l" "signals (bodies_before b l) = b"
proof -
  have whole: "length (filter (\<lambda>x. snd x = At_store)
                 (concat (map (\<lambda>i. map (Pair (i mod 2)) body_order) [0..<b]))) = b"
    "length (filter (\<lambda>x. snd x = At_signal)
                 (concat (map (\<lambda>i. map (Pair (i mod 2)) body_order) [0..<b]))) = b"
    by (induction b) (simp_all add: body_order_def)
  show "increments (bodies_before b l) = b + stored l"
    using whole(1) by (cases l) (simp_all add: increments_def bodies_before_def body_order_def)
  show "signals (bodies_before b l) = b"
    using whole(2) by (cases l) (simp_all add: signals_def bodies_before_def body_order_def)
qed

lemma position_step_core_0:
  assumes "position b l s"
  shows "protothread_core_0 s =
     (if even b
      then Some (case pt_core_0 s of
             At_wait \<Rightarrow> s\<lparr>core_0_go := 0, pt_core_0 := At_load\<rparr>
           | At_load \<Rightarrow> s\<lparr>loaded_0 := global_counter s, pt_core_0 := At_store\<rparr>
           | At_store \<Rightarrow> s\<lparr>global_counter := global_counter s + 1, pt_core_0 := At_printf\<rparr>
           | At_printf \<Rightarrow>
               s\<lparr>console := console s @
                     [\<lparr>speaker = 0, counter = global_counter s, max_f = fr_max s,
                       fft_count = FFT_count s\<rparr>],
                 pt_core_0 := At_reset\<rparr>
           | At_reset \<Rightarrow> s\<lparr>FFT_count := 0, pt_core_0 := At_yield\<rparr>
           | At_yield \<Rightarrow> s\<lparr>pt_core_0 := At_signal\<rparr>
           | At_signal \<Rightarrow> s\<lparr>core_1_go := 1, pt_core_0 := At_wait\<rparr>)
      else None)"
proof (cases "even b")
  case False
  then show ?thesis
    using assms by (simp add: position_def protothread_core_0_def PT_SEM_SAFE_WAIT_def)
next
  case True
  then show ?thesis
    using assms
    by (cases l)
      (simp_all add: position_def protothread_core_0_def PT_SEM_SAFE_WAIT_def
        PT_SEM_SAFE_SIGNAL_def)
qed

lemma position_step_core_1:
  assumes "position b l s"
  shows "protothread_core_1 s =
     (if odd b
      then Some (case pt_core_1 s of
             At_wait \<Rightarrow> s\<lparr>core_1_go := 0, pt_core_1 := At_load\<rparr>
           | At_load \<Rightarrow> s\<lparr>loaded_1 := global_counter s, pt_core_1 := At_store\<rparr>
           | At_store \<Rightarrow> s\<lparr>global_counter := global_counter s + 1, pt_core_1 := At_printf\<rparr>
           | At_printf \<Rightarrow>
               s\<lparr>console := console s @
                     [\<lparr>speaker = 1, counter = global_counter s, max_f = fr_max s,
                       fft_count = FFT_count s\<rparr>],
                 pt_core_1 := At_reset\<rparr>
           | At_reset \<Rightarrow> s\<lparr>FFT_count := 0, pt_core_1 := At_yield\<rparr>
           | At_yield \<Rightarrow> s\<lparr>pt_core_1 := At_signal\<rparr>
           | At_signal \<Rightarrow> s\<lparr>core_0_go := 1, pt_core_1 := At_wait\<rparr>)
      else None)"
proof (cases "even b")
  case True
  then show ?thesis
    using assms by (simp add: position_def protothread_core_1_def PT_SEM_SAFE_WAIT_def)
next
  case False
  then show ?thesis
    using assms
    by (cases l)
      (simp_all add: position_def protothread_core_1_def PT_SEM_SAFE_WAIT_def
        PT_SEM_SAFE_SIGNAL_def)
qed

lemma position_semaphores:
  assumes "position b l s"
  shows "core_0_go s = (if even b \<and> pt_core_0 s = At_wait then 1 else 0)"
    and "core_1_go s = (if odd b \<and> pt_core_1 s = At_wait then 1 else 0)"
  using assms by (cases "even b"; simp add: position_def)+

lemma sample_run: "run sample_schedule handshake_start = Some sample_outcome"
  by (simp add: sample_schedule_def sample_outcome_def handshake_start_def fire_def
      protothread_core_0_def protothread_core_1_def PT_SEM_SAFE_INIT_def PT_SEM_SAFE_WAIT_def
      PT_SEM_SAFE_SIGNAL_def)

lemma sample_executed:
  "executed sample_schedule handshake_start
   = [(0, At_wait), (0, At_load), (0, At_store), (0, At_printf), (0, At_reset), (0, At_yield),
      (0, At_signal), (1, At_wait), (1, At_load), (1, At_store)]"
  by (simp add: sample_schedule_def handshake_start_def fire_def statement_def
      protothread_core_0_def protothread_core_1_def PT_SEM_SAFE_INIT_def PT_SEM_SAFE_WAIT_def
      PT_SEM_SAFE_SIGNAL_def)

lemma sample_counts:
  "signals (executed sample_schedule handshake_start) = 1"
  "increments (executed sample_schedule handshake_start) = 2"
  by (simp_all add: sample_executed signals_def increments_def)

lemma core_1_cannot_start: "run [Heartbeat_1] handshake_start = None"
  by (simp add: handshake_start_def fire_def protothread_core_1_def PT_SEM_SAFE_INIT_def
      PT_SEM_SAFE_WAIT_def)

text \<open>
  Claim C9. Start with the semaphore of core 0 signalled and that of core 1 not, and let
  any scheduler interleave the steps of the two heartbeat threads (and of the FFT thread).
  In every state a schedule leads to: (1) the heartbeat statements executed so far are
  whole bodies, one after the other and never interleaved, by core 0, core 1, core 0, ...
  in strict alternation, each body being wait, increment (load and store), report, reset of
  the transform counter, timed yield and signal in this order, followed by the beginning
  of the next body; (2) at no time are both threads past their wait; (3) the shared counter
  equals the number of increments executed, and that number is the number of signals
  executed, plus one while the thread in its body has stored its increment and not yet
  signalled: one increment per signal; (4) the lines on the console come alternately from
  core 0 and core 1 and carry the counter values 1, 2, 3, ...; (5) a semaphore is signalled
  only while its thread waits for its turn, core 0 having the turn after an even number of
  signals and core 1 after an odd number; (6) the thread that has the turn can always take
  its next step, the other thread is held at its wait, and the step does what the body
  says: the wait takes the signal of the thread's own semaphore, the increment adds exactly
  one to the shared counter, the report appends a line with the thread, the counter, the
  maximum frequency and the transform count as they are, the reset sets the transform
  count to 0, the timed yield only moves on, and the signal sets the semaphore of the other
  core.
\<close>

theorem handshake_alternation:
  assumes "run evs handshake_start = Some s"
  shows "(\<exists>b l. executed evs handshake_start = bodies_before b l)
       \<and> (pt_core_0 s = At_wait \<or> pt_core_1 s = At_wait)
       \<and> global_counter s = of_nat (increments (executed evs handshake_start))
       \<and> increments (executed evs handshake_start)
           = signals (executed evs handshake_start) + stored (pt_core_0 s) + stored (pt_core_1 s)
       \<and> (\<forall>k < length (console s).
             speaker (console s ! k) = k mod 2 \<and> counter (console s ! k) = of_nat (Suc k))
       \<and> core_0_go s
           = (if even (signals (executed evs handshake_start)) \<and> pt_core_0 s = At_wait
              then 1 else 0)
       \<and> core_1_go s
           = (if odd (signals (executed evs handshake_start)) \<and> pt_core_1 s = At_wait
              then 1 else 0)
       \<and> protothread_core_0 s =
           (if even (signals (executed evs handshake_start))
            then Some (case pt_core_0 s of
               At_wait \<Rightarrow> s\<lparr>core_0_go := 0, pt_core_0 := At_load\<rparr>
             | At_load \<Rightarrow> s\<lparr>loaded_0 := global_counter s, pt_core_0 := At_store\<rparr>
             | At_store \<Rightarrow> s\<lparr>global_counter := global_counter s + 1, pt_core_0 := At_printf\<rparr>
             | At_printf \<Rightarrow>
                 s\<lparr>console := console s @
                       [\<lparr>speaker = 0, counter = global_counter s, max_f = fr_max s,
                         fft_count = FFT_count s\<rparr>],
                   pt_core_0 := At_reset\<rparr>
             | At_reset \<Rightarrow> s\<lparr>FFT_count := 0, pt_core_0 := At_yield\<rparr>
             | At_yield \<Rightarrow> s\<lparr>pt_core_0 := At_signal\<rparr>
             | At_signal \<Rightarrow> s\<lparr>core_1_go := 1, pt_core_0 := At_wait\<rparr>)
            else None)
       \<and> protothread_core_1 s =
           (if odd (signals (executed evs handshake_start))
            then Some (case pt_core_1 s of
               At_wait \<Rightarrow> s\<lparr>core_1_go := 0, pt_core_1 := At_load\<rparr>
             | At_load \<Rightarrow> s\<lparr>loaded_1 := global_counter s, pt_core_1 := At_store\<rparr>
             | At_store \<Rightarrow> s\<lparr>global_counter := global_counter s + 1, pt_core_1 := At_printf\<rparr>
             | At_printf \<Rightarrow>
                 s\<lparr>console := console s @
                       [\<lparr>speaker = 1, counter = global_counter s, max_f = fr_max s,
                         fft_count = FFT_count s\<rparr>],
                   pt_core_1 := At_reset\<rparr>
             | At_reset \<Rightarrow> s\<lparr>FFT_count := 0, pt_core_1 := At_yield\<rparr>
             | At_yield \<Rightarrow> s\<lparr>pt_core_1 := At_signal\<rparr>
             | At_signal \<Rightarrow> s\<lparr>core_0_go := 1, pt_core_1 := At_wait\<rparr>)
            else None)"
proof -
  from run_position [OF position_start assms] obtain b l where
    p: "position b l s" and e: "executed evs handshake_start = bodies_before b l"
    by (auto simp add: bodies_before_start)
  have sg: "signals (executed evs handshake_start) = b"
    by (simp add: e count_bodies_before)
  have a: "\<exists>b l. executed evs handshake_start = bodies_before b l"
    using e by blast
  have w: "pt_core_0 s = At_wait \<or> pt_core_1 s = At_wait"
    using p by (cases "even b") (simp_all add: position_def)
  have g: "global_counter s = of_nat (increments (executed evs handshake_start))"
    using p by (simp add: e count_bodies_before position_def)
  have "stored (pt_core_0 s) + stored (pt_core_1 s) = stored l"
    using p by (cases "even b") (simp_all add: position_def)
  then have c: "increments (executed evs handshake_start)
           = signals (executed evs handshake_start) + stored (pt_core_0 s) + stored (pt_core_1 s)"
    by (simp add: e count_bodies_before)
  have l: "\<forall>k < length (console s).
             speaker (console s ! k) = k mod 2 \<and> counter (console s ! k) = of_nat (Suc k)"
    using p by (simp add: position_def)
  note s0 = position_semaphores(1) [OF p, folded sg]
  note s1 = position_semaphores(2) [OF p, folded sg]
  note t0 = position_step_core_0 [OF p, folded sg]
  note t1 = position_step_core_1 [OF p, folded sg]
  from a w g c l s0 s1 t0 t1 show ?thesis by (intro conjI)
qed

theorem handshake_alternation_witness:
  "run sample_schedule handshake_start = Some sample_outcome
   \<and> executed sample_schedule handshake_start = bodies_before 1 At_printf
   \<and> global_counter sample_outcome = 2
   \<and> increments (executed sample_schedule handshake_start) = 2
   \<and> signals (executed sample_schedule handshake_start) = 1
   \<and> console sample_outcome = [\<lparr>speaker = 0, counter = 1, max_f = 2299, fft_count = 2\<rparr>]
   \<and> core_0_go sample_outcome = 0 \<and> core_1_go sample_outcome = 0
   \<and> protothread_core_0 sample_outcome = None
   \<and> protothread_core_1 sample_outcome
       = Some (sample_outcome
           \<lparr>console := [\<lparr>speaker = 0, counter = 1, max_f = 2299, fft_count = 2\<rparr>,
                        \<lparr>speaker = 1, counter = 2, max_f = 2299, fft_count = 1\<rparr>],
            pt_core_1 := At_reset\<rparr>)"
proof -
  note t = handshake_alternation [OF sample_run, unfolded sample_counts]
  note t_counter = t [THEN conjunct2, THEN conjunct2, THEN conjunct1]
  note rest = t [THEN conjunct2, THEN conjunct2, THEN conjunct2, THEN conjunct2, THEN conjunct2]
  note t_sem_0 = rest [THEN conjunct1]
  note t_sem_1 = rest [THEN conjunct2, THEN conjunct1]
  note t_step_0 = rest [THEN conjunct2, THEN conjunct2, THEN conjunct1]
  note t_step_1 = rest [THEN conjunct2, THEN conjunct2, THEN conjunct2]
  have ex: "executed sample_schedule handshake_start = bodies_before 1 At_printf"
    by (simp add: sample_executed bodies_before_def body_order_def)
  have gc: "global_counter sample_outcome = 2"
    using t_counter by simp
  have cons: "console sample_outcome = [\<lparr>speaker = 0, counter = 1, max_f = 2299, fft_count = 2\<rparr>]"
    by (simp add: sample_outcome_def)
  have at: "pt_core_1 sample_outcome = At_printf" "fr_max sample_outcome = 2299"
    "FFT_count sample_outcome = 1"
    by (simp_all add: sample_outcome_def)
  have sems: "core_0_go sample_outcome = 0" "core_1_go sample_outcome = 0"
    using t_sem_0 t_sem_1 by (simp_all add: at)
  have s0: "protothread_core_0 sample_outcome = None"
    using t_step_0 by simp
  have s1: "protothread_core_1 sample_outcome
       = Some (sample_outcome
           \<lparr>console := [\<lparr>speaker = 0, counter = 1, max_f = 2299, fft_count = 2\<rparr>,
                        \<lparr>speaker = 1, counter = 2, max_f = 2299, fft_count = 1\<rparr>],
            pt_core_1 := At_reset\<rparr>)"
    using t_step_1 by (simp add: at gc cons)
  from sample_run ex gc sample_counts cons sems s0 s1 show ?thesis by (intro conjI)
qed

end
